theory Spec2Isabelle
  imports Complex_Main
begin

chapter \<open>MMDGLM2: the training loop with a forgetting window of simulated samples\<close>

text \<open>
  A shallow embedding of \<^verbatim>\<open>gglm/glm/mmdglm_forgetting_samples.py\<close>.  Tensors with the
  axes \<^verbatim>\<open>[time, trial]\<close> are lists of rows, one row per time bin; the design matrix with
  the axes \<^verbatim>\<open>[time, trial, basis]\<close> is a list of such rows of coefficient vectors.  Numbers
  are exact reals, except where the rounding of the tensors' element type decides the
  property and is modelled (the rates in binary64 arithmetic); a value that torch would
  report as \<^verbatim>\<open>inf\<close> or \<^verbatim>\<open>nan\<close> is \<open>None\<close>.  Exceptions are values of type \<open>error\<close>.
\<close>

section \<open>Exceptions\<close>

datatype error =
    IndexError          \<comment> \<open>\<^verbatim>\<open>list.pop\<close> on an empty list\<close>
  | ZeroDivisionError   \<comment> \<open>\<^verbatim>\<open>/\<close> and \<^verbatim>\<open>%\<close> of Python numbers by zero\<close>
  | UnboundLocalError   \<comment> \<open>a local name read before it was assigned\<close>
  | KeyError            \<comment> \<open>a dictionary read at a missing key\<close>
  | RuntimeError        \<comment> \<open>torch: the shapes of the operands do not fit\<close>
  | ExternalError       \<comment> \<open>an exception raised by a collaborator\<close>

section \<open>The history buffer\<close>

text \<open>
  \<^verbatim>\<open>r_fr_list, mask_spikes_fr_list = [], []\<close> (line 106) are two Python lists that the loop
  keeps in step.  \<^verbatim>\<open>xs.pop(0)\<close> removes the entry at index 0 and raises on an empty list.
\<close>

type_synonym ('r, 'm) history = "'r list \<times> 'm list"

definition pop0 :: "'a list \<Rightarrow> error + 'a list" where
  "pop0 xs = (case xs of [] \<Rightarrow> Inl IndexError | _ # ys \<Rightarrow> Inr ys)"

text \<open>
  Lines 116 to 123:
  \<^verbatim>\<open>
  if len(mask_spikes_fr_list) >= n_iterations_store:
      r_fr_list.pop(0)
      mask_spikes_fr_list.pop(0)
  r_fr_list.append(_r_fr)
  mask_spikes_fr_list.append(_mask_spikes_fr)
  \<close>
\<close>

definition buffer_update ::
  "int \<Rightarrow> ('r, 'm) history \<Rightarrow> 'r \<Rightarrow> 'm \<Rightarrow> error + ('r, 'm) history" where
  "buffer_update n_iterations_store h r m =
     (case h of (r_fr_list, mask_spikes_fr_list) \<Rightarrow>
        if n_iterations_store \<le> int (length mask_spikes_fr_list) then
          (case pop0 r_fr_list of
             Inl e \<Rightarrow> Inl e
           | Inr r_fr_list' \<Rightarrow>
               (case pop0 mask_spikes_fr_list of
                  Inl e \<Rightarrow> Inl e
                | Inr mask_spikes_fr_list' \<Rightarrow>
                    Inr (r_fr_list' @ [r], mask_spikes_fr_list' @ [m])))
        else Inr (r_fr_list @ [r], mask_spikes_fr_list @ [m]))"

text \<open>
  The buffer over a run: one update per epoch, with the pair that the forward pass of that
  epoch returned, stopping at the first exception.
\<close>

fun buffer_run ::
  "int \<Rightarrow> ('r, 'm) history \<Rightarrow> ('r \<times> 'm) list \<Rightarrow> error + ('r, 'm) history" where
  "buffer_run n h [] = Inr h"
| "buffer_run n h (s # rest) =
     (case buffer_update n h (fst s) (snd s) of
        Inl e \<Rightarrow> Inl e
      | Inr h' \<Rightarrow> buffer_run n h' rest)"

section \<open>The effective simulated batch\<close>

text \<open>
  Lines 124 and 125 concatenate the buffered entries along the trial axis:
  \<^verbatim>\<open>r_fr = torch.cat(r_fr_list, 1)\<close>, \<^verbatim>\<open>mask_spikes_fr = torch.cat(mask_spikes_fr_list, 1)\<close>.
  \<^verbatim>\<open>torch.cat\<close> refuses an empty list and tensors whose other axis (the number of time
  bins) differs.
\<close>

type_synonym 'a tensor2 = "'a list list"

definition cat1 :: "'a tensor2 list \<Rightarrow> error + 'a tensor2" where
  "cat1 ts =
     (case ts of
        [] \<Rightarrow> Inl RuntimeError
      | t # rest \<Rightarrow>
          if list_all (\<lambda>u. length u = length t) rest
          then Inr (foldl (\<lambda>acc u. map2 (@) acc u) t rest)
          else Inl RuntimeError)"

text \<open>
  Line 132, in feature-map mode:
  \<^verbatim>\<open>weights = np.repeat(beta**np.arange(len(mask_spikes_fr_list)), n_batch_fr)[None, :]\<close>.
  \<^verbatim>\<open>np.arange(m)\<close> is \<open>0, 1, ..., m - 1\<close> and \<^verbatim>\<open>np.repeat(a, n)\<close> repeats each element of
  \<open>a\<close> \<open>n\<close> times in place, so column \<open>i * n_batch_fr + j\<close> carries \<open>beta ^ i\<close>, where
  \<open>i\<close> is the index of the entry in the list.  \<open>n_batch_fr\<close> is the number of simulated
  trials of one forward pass, a count; \<open>beta\<close> is a real discount factor (with a Python
  \<^verbatim>\<open>int\<close> for \<open>beta\<close> numpy would compute the powers in \<^verbatim>\<open>int64\<close>, which wraps).
\<close>

definition weights :: "real \<Rightarrow> nat \<Rightarrow> nat \<Rightarrow> real list" where
  "weights beta m n_batch_fr = concat (map (\<lambda>i. replicate n_batch_fr (beta ^ i)) [0..<m])"

text \<open>What one epoch hands to the estimator: lines 124, 125 and 132.\<close>

definition effective_batch ::
  "real \<Rightarrow> nat \<Rightarrow> ('a tensor2, 'b tensor2) history \<Rightarrow>
     error + ('a tensor2 \<times> 'b tensor2 \<times> real list)" where
  "effective_batch beta n_batch_fr h =
     (case cat1 (fst h) of
        Inl e \<Rightarrow> Inl e
      | Inr r_fr \<Rightarrow>
          (case cat1 (snd h) of
             Inl e \<Rightarrow> Inl e
           | Inr mask_spikes_fr \<Rightarrow>
               Inr (r_fr, mask_spikes_fr, weights beta (length (snd h)) n_batch_fr)))"

text \<open>
  The loop of lines 107 to 132 over the forward passes of a run, keeping the effective
  batch of every epoch.
\<close>

fun batches_run ::
  "int \<Rightarrow> real \<Rightarrow> nat \<Rightarrow> ('a tensor2, 'b tensor2) history \<Rightarrow> ('a tensor2 \<times> 'b tensor2) list \<Rightarrow>
     error + ('a tensor2 \<times> 'b tensor2 \<times> real list) list" where
  "batches_run n beta n_batch_fr h [] = Inr []"
| "batches_run n beta n_batch_fr h (s # rest) =
     (case buffer_update n h (fst s) (snd s) of
        Inl e \<Rightarrow> Inl e
      | Inr h' \<Rightarrow>
          (case effective_batch beta n_batch_fr h' of
             Inl e \<Rightarrow> Inl e
           | Inr b \<Rightarrow>
               (case batches_run n beta n_batch_fr h' rest of
                  Inl e \<Rightarrow> Inl e
                | Inr bs \<Rightarrow> Inr (b # bs))))"

text \<open>
  A loop without history, for comparison: every epoch uses the pair its own forward pass
  returned, each trial with weight 1.
\<close>

definition no_history_run ::
  "nat \<Rightarrow> ('a tensor2 \<times> 'b tensor2) list \<Rightarrow> ('a tensor2 \<times> 'b tensor2 \<times> real list) list" where
  "no_history_run n_batch_fr samples =
     map (\<lambda>s. (fst s, snd s, replicate n_batch_fr 1)) samples"

section \<open>The control flow of \<^verbatim>\<open>train\<close>\<close>

text \<open>
  The loop body of lines 107 to 244, statement by statement.  What the tensor library, the
  sampler, the optimizer and the metrics callback compute is not part of this file: a run
  fixes, for every epoch, whether such a step raises and which values it yields.
\<close>

datatype step =
    SampleStep                \<comment> \<open>lines 108 to 114: progress print, \<^verbatim>\<open>optim.zero_grad()\<close>, forward pass\<close>
  | BufferUpdate              \<comment> \<open>lines 116 to 125\<close>
  | LossAssembly              \<comment> \<open>lines 127 to 164\<close>
  | Backprop                  \<comment> \<open>lines 166 to 169\<close>
  | ControlVariateInjection   \<comment> \<open>lines 171 to 188\<close>
  | GradientClip              \<comment> \<open>lines 189 and 190\<close>
  | MetricsRecord             \<comment> \<open>lines 192 to 235\<close>
  | OptimizerStep             \<comment> \<open>lines 237 to 239: \<^verbatim>\<open>optim.step()\<close>, then the scheduler if one is given\<close>
  | ParamSync                 \<comment> \<open>lines 241 and 242\<close>

record config =
  num_epochs :: int
  n_iterations_store :: int
  n_metrics :: int
  log_likelihood :: bool
  control_variates :: bool
  clip_given :: bool          \<comment> \<open>\<^verbatim>\<open>clip is not None\<close>\<close>

record ('r, 'm, 'v) run =
  raises :: "nat \<Rightarrow> step \<Rightarrow> error option"
    \<comment> \<open>the exception, if any, out of the collaborators' code of a step at an epoch\<close>
  forward_at :: "nat \<Rightarrow> 'r \<times> 'm"
    \<comment> \<open>\<^verbatim>\<open>_r_fr, _mask_spikes_fr\<close> of line 114\<close>
  loss_item_at :: "nat \<Rightarrow> 'v"       \<comment> \<open>\<^verbatim>\<open>_loss.item()\<close>\<close>
  nll_item_at :: "nat \<Rightarrow> 'v"        \<comment> \<open>\<^verbatim>\<open>_nll.item()\<close>\<close>
  metrics_at :: "nat \<Rightarrow> (string \<times> 'v) list"
    \<comment> \<open>the items of the dictionary \<^verbatim>\<open>_metrics\<close> after line 199\<close>

record ('r, 'm, 'v) loop_state =
  hist :: "('r, 'm) history"
  loss :: "'v list"
  nll :: "'v list"
  metrics_list :: "(string \<rightharpoonup> 'v list) option"     \<comment> \<open>\<open>None\<close>: the name is not bound yet\<close>
  events :: "(nat \<times> step) list"                   \<comment> \<open>the steps done so far, in order\<close>

definition init_state :: "('r, 'm, 'v) loop_state" where
  "init_state = \<lparr>hist = ([], []), loss = [], nll = [], metrics_list = None, events = []\<rparr>"

text \<open>A step of the collaborators: it raises, or it is done and logged.\<close>

definition perform ::
  "('r, 'm, 'v) run \<Rightarrow> nat \<Rightarrow> step \<Rightarrow> ('r, 'm, 'v) loop_state \<Rightarrow> error + ('r, 'm, 'v) loop_state" where
  "perform w epoch st s =
     (case raises w epoch st of
        Some e \<Rightarrow> Inl e
      | None \<Rightarrow> Inr (s\<lparr>events := events s @ [(epoch, st)]\<rparr>))"

text \<open>Statements in sequence: the first exception ends the run.\<close>

fun run_stages :: "('s \<Rightarrow> error + 's) list \<Rightarrow> 's \<Rightarrow> error + 's" where
  "run_stages [] s = Inr s"
| "run_stages (f # fs) s = (case f s of Inl e \<Rightarrow> Inl e | Inr s' \<Rightarrow> run_stages fs s')"

definition buffer_stage ::
  "config \<Rightarrow> ('r, 'm, 'v) run \<Rightarrow> nat \<Rightarrow> ('r, 'm, 'v) loop_state \<Rightarrow> error + ('r, 'm, 'v) loop_state" where
  "buffer_stage c w epoch s =
     (case buffer_update (n_iterations_store c) (hist s)
             (fst (forward_at w epoch)) (snd (forward_at w epoch)) of
        Inl e \<Rightarrow> Inl e
      | Inr h \<Rightarrow> perform w epoch BufferUpdate (s\<lparr>hist := h\<rparr>))"

text \<open>Lines 161 to 164: \<^verbatim>\<open>if log_likelihood: ... nll.append(_nll.item())\<close>.\<close>

definition loss_stage ::
  "config \<Rightarrow> ('r, 'm, 'v) run \<Rightarrow> nat \<Rightarrow> ('r, 'm, 'v) loop_state \<Rightarrow> error + ('r, 'm, 'v) loop_state" where
  "loss_stage c w epoch s =
     (case perform w epoch LossAssembly s of
        Inl e \<Rightarrow> Inl e
      | Inr s' \<Rightarrow>
          Inr (if log_likelihood c then s'\<lparr>nll := nll s' @ [nll_item_at w epoch]\<rparr> else s'))"

text \<open>
  Lines 231 to 235:
  \<^verbatim>\<open>
  if epoch == 0:
      metrics_list = {key:[val] for key, val in _metrics.items()}
  else:
      for key, val in _metrics.items():
          metrics_list[key].append(val)
  \<close>
\<close>

definition start_metrics :: "(string \<times> 'v) list \<Rightarrow> (string \<rightharpoonup> 'v list)" where
  "start_metrics items = fold (\<lambda>kv d. d(fst kv \<mapsto> [snd kv])) items Map.empty"

fun append_metrics ::
  "(string \<times> 'v) list \<Rightarrow> (string \<rightharpoonup> 'v list) option \<Rightarrow> error + (string \<rightharpoonup> 'v list) option" where
  "append_metrics [] ml = Inr ml"
| "append_metrics (kv # rest) ml =
     (case ml of
        None \<Rightarrow> Inl UnboundLocalError
      | Some d \<Rightarrow>
          (case d (fst kv) of
             None \<Rightarrow> Inl KeyError
           | Some vs \<Rightarrow> append_metrics rest (Some (d(fst kv \<mapsto> vs @ [snd kv])))))"

text \<open>
  Lines 192 to 235, under \<^verbatim>\<open>if epoch % n_metrics == 0:\<close>.  Python's \<^verbatim>\<open>%\<close> raises on a zero
  divisor and otherwise has the sign of the divisor, as \<open>mod\<close> on \<open>int\<close> has.
\<close>

definition metrics_stage ::
  "config \<Rightarrow> ('r, 'm, 'v) run \<Rightarrow> nat \<Rightarrow> ('r, 'm, 'v) loop_state \<Rightarrow> error + ('r, 'm, 'v) loop_state" where
  "metrics_stage c w epoch s =
     (if n_metrics c = 0 then Inl ZeroDivisionError
      else if int epoch mod n_metrics c = 0 then
        (case perform w epoch MetricsRecord s of
           Inl e \<Rightarrow> Inl e
         | Inr s' \<Rightarrow>
             (case (if epoch = 0 then Inr (Some (start_metrics (metrics_at w epoch)))
                    else append_metrics (metrics_at w epoch) (metrics_list s')) of
                Inl e \<Rightarrow> Inl e
              | Inr ml \<Rightarrow> Inr (s'\<lparr>metrics_list := ml\<rparr>)))
      else Inr s)"

text \<open>Line 244: \<^verbatim>\<open>loss.append(_loss.item())\<close>.\<close>

definition loss_append ::
  "('r, 'm, 'v) run \<Rightarrow> nat \<Rightarrow> ('r, 'm, 'v) loop_state \<Rightarrow> error + ('r, 'm, 'v) loop_state" where
  "loss_append w epoch s = Inr (s\<lparr>loss := loss s @ [loss_item_at w epoch]\<rparr>)"

text \<open>The body of the loop, in the order of the source lines.\<close>

definition epoch_body ::
  "config \<Rightarrow> ('r, 'm, 'v) run \<Rightarrow> nat \<Rightarrow> ('r, 'm, 'v) loop_state \<Rightarrow> error + ('r, 'm, 'v) loop_state" where
  "epoch_body c w epoch =
     run_stages
       ([perform w epoch SampleStep,
         buffer_stage c w epoch,
         loss_stage c w epoch,
         perform w epoch Backprop]
        @ (if control_variates c then [perform w epoch ControlVariateInjection] else [])
        @ (if clip_given c then [perform w epoch GradientClip] else [])
        @ [metrics_stage c w epoch,
           perform w epoch OptimizerStep,
           perform w epoch ParamSync,
           loss_append w epoch])"

text \<open>\<^verbatim>\<open>for epoch in range(num_epochs):\<close> runs no epoch when \<open>num_epochs \<le> 0\<close>.\<close>

definition train_loop ::
  "config \<Rightarrow> ('r, 'm, 'v) run \<Rightarrow> error + ('r, 'm, 'v) loop_state" where
  "train_loop c w = run_stages (map (epoch_body c w) [0..<nat (num_epochs c)]) init_state"

text \<open>
  Line 249: \<^verbatim>\<open>return loss, nll, metrics_list\<close>.  Reading a local name that no statement
  has assigned raises.
\<close>

definition train ::
  "config \<Rightarrow> ('r, 'm, 'v) run \<Rightarrow> error + ('v list \<times> 'v list \<times> (string \<rightharpoonup> 'v list))" where
  "train c w =
     (case train_loop c w of
        Inl e \<Rightarrow> Inl e
      | Inr s \<Rightarrow>
          (case metrics_list s of
             None \<Rightarrow> Inl UnboundLocalError
           | Some d \<Rightarrow> Inr (loss s, nll s, d)))"

text \<open>
  The order of the steps of one epoch as the specification lists them, for comparison
  with \<open>epoch_body\<close>: the recording of the metrics comes last.
\<close>

definition spec_epoch_order :: "bool \<Rightarrow> bool \<Rightarrow> bool \<Rightarrow> step list" where
  "spec_epoch_order cv clip recorded =
     [SampleStep, BufferUpdate, LossAssembly, Backprop]
     @ (if cv then [ControlVariateInjection] else [])
     @ (if clip then [GradientClip] else [])
     @ [OptimizerStep, ParamSync]
     @ (if recorded then [MetricsRecord] else [])"

text \<open>The order in which \<open>epoch_body\<close> goes through them.\<close>

definition code_epoch_order :: "bool \<Rightarrow> bool \<Rightarrow> bool \<Rightarrow> step list" where
  "code_epoch_order cv clip recorded =
     [SampleStep, BufferUpdate, LossAssembly, Backprop]
     @ (if cv then [ControlVariateInjection] else [])
     @ (if clip then [GradientClip] else [])
     @ (if recorded then [MetricsRecord] else [])
     @ [OptimizerStep, ParamSync]"

text \<open>What holds between two epochs of a run in which nothing raises.\<close>

definition between_epochs :: "('r, 'm, 'v) run \<Rightarrow> nat \<Rightarrow> ('r, 'm, 'v) loop_state \<Rightarrow> bool" where
  "between_epochs w k s \<longleftrightarrow>
     length (fst (hist s)) = length (snd (hist s))
     \<and> (0 < k \<longrightarrow> (\<exists>d. metrics_list s = Some d \<and> dom d = fst ` set (metrics_at w 0)))"

section \<open>Rates\<close>

text \<open>
  Line 12:
  \<^verbatim>\<open>dic_nonlinearities = {'exp': lambda x: torch.exp(x),
                        'log_exp': lambda x: torch.log(1 + torch.exp(x))}\<close>;
  the constructor keeps \<^verbatim>\<open>dic_nonlinearities[non_linearity]\<close> as
  \<^verbatim>\<open>self.non_linearity_torch\<close> (line 19).
\<close>

definition dic_nonlinearities :: "string \<rightharpoonup> (real \<Rightarrow> real)" where
  "dic_nonlinearities = [''exp'' \<mapsto> (\<lambda>x. exp x), ''log_exp'' \<mapsto> (\<lambda>x. ln (1 + exp x))]"

type_synonym tensor3 = "real list list list"

definition dot :: "real list \<Rightarrow> real list \<Rightarrow> real" where
  "dot xs ys = sum_list (map2 (*) xs ys)"

text \<open>
  \<^verbatim>\<open>torch.einsum('tka,a->tk', X, theta)\<close>: entry \<open>[t][k]\<close> is the sum over the basis axis of
  \<open>X[t][k][a] * theta[a]\<close>.  The basis axis of \<open>X\<close> has to be as long as \<open>theta\<close>; an axis
  of size 1, which recent versions of torch stretch to the other size, counts as a
  mismatch here.
\<close>

definition einsum_tka_a :: "tensor3 \<Rightarrow> real list \<Rightarrow> error + real tensor2" where
  "einsum_tka_a X theta =
     (if list_all (list_all (\<lambda>x. length x = length theta)) X
      then Inr (map (map (\<lambda>x. dot x theta)) X)
      else Inl RuntimeError)"

text \<open>
  Lines 46 and 47 (and again 66, 67 and 75, 76):
  \<^verbatim>\<open>u = torch.einsum('tka,a->tk', X, theta_g); r = self.non_linearity_torch(u)\<close>.
\<close>

definition rate :: "(real \<Rightarrow> real) \<Rightarrow> tensor3 \<Rightarrow> real list \<Rightarrow> error + real tensor2" where
  "rate non_linearity_torch X theta_g =
     (case einsum_tka_a X theta_g of
        Inl e \<Rightarrow> Inl e
      | Inr u \<Rightarrow> Inr (map (map non_linearity_torch) u))"

section \<open>Elementwise operations\<close>

text \<open>
  An elementwise operation of torch broadcasts: along an axis the two sizes are equal, or
  one of them is 1 and its single entry is used throughout; anything else raises.
\<close>

definition bcast :: "('a \<Rightarrow> 'b \<Rightarrow> 'c) \<Rightarrow> 'a list \<Rightarrow> 'b list \<Rightarrow> 'c list option" where
  "bcast f xs ys =
     (if length xs = length ys then Some (map2 f xs ys)
      else if length xs = 1 then Some (map (f (hd xs)) ys)
      else if length ys = 1 then Some (map (\<lambda>x. f x (hd ys)) xs)
      else None)"

definition bcast2 :: "('a \<Rightarrow> 'b \<Rightarrow> 'c) \<Rightarrow> 'a tensor2 \<Rightarrow> 'b tensor2 \<Rightarrow> error + 'c tensor2" where
  "bcast2 f A B =
     (case bcast (bcast f) A B of
        None \<Rightarrow> Inl RuntimeError
      | Some rows \<Rightarrow>
          (case those rows of
             None \<Rightarrow> Inl RuntimeError
           | Some C \<Rightarrow> Inr C))"

text \<open>
  Values that need not be finite are \<open>real option\<close>: \<open>None\<close> stands for \<^verbatim>\<open>inf\<close>, \<^verbatim>\<open>-inf\<close>
  and \<^verbatim>\<open>nan\<close>.  \<^verbatim>\<open>torch.log\<close> is \<^verbatim>\<open>-inf\<close> at 0 and \<^verbatim>\<open>nan\<close> below; a product, a sum or a
  difference with such an operand is not finite either (\<^verbatim>\<open>-inf * 0\<close> is \<^verbatim>\<open>nan\<close>); a tensor
  divided by the Python number 0 is \<^verbatim>\<open>inf\<close> or \<^verbatim>\<open>nan\<close> and nothing is raised.
\<close>

definition log_t :: "real \<Rightarrow> real option" where
  "log_t x = (if 0 < x then Some (ln x) else None)"

definition times_t :: "real option \<Rightarrow> real \<Rightarrow> real option" where
  "times_t a m = map_option (\<lambda>v. v * m) a"

definition plus_t :: "real option \<Rightarrow> real option \<Rightarrow> real option" where
  "plus_t a b = (case a of None \<Rightarrow> None | Some x \<Rightarrow> map_option (\<lambda>y. x + y) b)"

definition sum_t :: "real option list \<Rightarrow> real option" where
  "sum_t xs = map_option sum_list (those xs)"

definition div_t :: "real option \<Rightarrow> real \<Rightarrow> real option" where
  "div_t a d = (case a of None \<Rightarrow> None | Some v \<Rightarrow> if d = 0 then None else Some (v / d))"

text \<open>\<^verbatim>\<open>torch.sum(A, 0)\<close>: the sum over the time axis, one value per trial.\<close>

definition sum0 :: "real tensor2 \<Rightarrow> real list" where
  "sum0 A = (case A of [] \<Rightarrow> [] | row # rows \<Rightarrow> foldl (map2 (+)) row rows)"

definition sum0_t :: "real option tensor2 \<Rightarrow> real option list" where
  "sum0_t A = (case A of [] \<Rightarrow> [] | row # rows \<Rightarrow> foldl (map2 plus_t) row rows)"

section \<open>The negative log-likelihood and the log-probability of the simulated trials\<close>

text \<open>
  Lines 68 and 69, on the rate \<open>r_dc\<close> of lines 66 and 67:
  \<^verbatim>\<open>
  neg_log_likelihood = -(torch.sum(torch.log(1 - torch.exp(-dt * r_dc)) * mask_spikes.double()) -
                         dt * torch.sum(r_dc * (1 - mask_spikes.double())))
  \<close>
\<close>

definition nll_of_rate :: "real \<Rightarrow> real tensor2 \<Rightarrow> real tensor2 \<Rightarrow> error + real option" where
  "nll_of_rate dt r_dc mask_spikes =
     (case bcast2 (\<lambda>r m. times_t (log_t (1 - exp (- dt * r))) m) r_dc mask_spikes of
        Inl e \<Rightarrow> Inl e
      | Inr spiking \<Rightarrow>
          (case bcast2 (\<lambda>r m. r * (1 - m)) r_dc mask_spikes of
             Inl e \<Rightarrow> Inl e
           | Inr silent \<Rightarrow>
               Inr (map_option (\<lambda>s. - (s - dt * sum_list (concat silent)))
                      (sum_t (concat spiking)))))"


text \<open>
  Lines 127 and 128:
  \<^verbatim>\<open>
  log_proba = torch.sum(torch.log(1 - torch.exp(-dt * r_fr) + 1e-24) * mask_spikes_fr.double(), 0) -
              dt * torch.sum(r_fr * (1 - mask_spikes_fr.double()), 0)
  \<close>
\<close>

definition log_proba :: "real \<Rightarrow> real tensor2 \<Rightarrow> real tensor2 \<Rightarrow> error + real option list" where
  "log_proba dt r_fr mask_spikes_fr =
     (case bcast2 (\<lambda>r m. times_t (log_t (1 - exp (- dt * r) + 1 / 10 ^ 24)) m) r_fr mask_spikes_fr of
        Inl e \<Rightarrow> Inl e
      | Inr spiking \<Rightarrow>
          (case bcast2 (\<lambda>r m. r * (1 - m)) r_fr mask_spikes_fr of
             Inl e \<Rightarrow> Inl e
           | Inr silent \<Rightarrow>
               (case bcast (\<lambda>a b. map_option (\<lambda>s. s - dt * b) a) (sum0_t spiking) (sum0 silent) of
                  None \<Rightarrow> Inl RuntimeError
                | Some lp \<Rightarrow> Inr lp)))"



section \<open>The unbiased surrogates\<close>

text \<open>
  The denominator \<^verbatim>\<open>n_batch_fr * (n_batch_fr - 1)\<close> of lines 139, 153 and 180, a Python
  integer; \<open>n_batch_fr\<close> is the number of simulated trials of a forward pass.
\<close>

definition unbiased_denom :: "nat \<Rightarrow> int" where
  "unbiased_denom n_batch_fr = int n_batch_fr * (int n_batch_fr - 1)"

text \<open>
  Feature-map mode, \<^verbatim>\<open>not biased\<close>, lines 136 to 140; \<open>phi_fr\<close> has the axes
  \<^verbatim>\<open>[feature, trial]\<close> and \<open>log_proba\<close> is taken finite:
  \<^verbatim>\<open>
  log_proba_phi = log_proba[None, :] * phi_fr
  sum_log_proba_phi_fr = torch.sum(log_proba_phi, 1)
  sum_phi_fr = torch.sum(phi_fr, 1)
  norm2_fr = (torch.sum(sum_log_proba_phi_fr * sum_phi_fr) - torch.sum(log_proba_phi * phi_fr))
             / (n_batch_fr * (n_batch_fr - 1))
  mmd_surr = 2 * norm2_fr - 2 / (n_d * n_batch_fr) * torch.sum(sum_phi_d * sum_log_proba_phi_fr)
  \<close>
  \<^verbatim>\<open>2 / (n_d * n_batch_fr)\<close> divides Python numbers and raises on 0.
\<close>

definition norm2_fr :: "real \<Rightarrow> real \<Rightarrow> nat \<Rightarrow> real option" where
  "norm2_fr a b n_batch_fr = div_t (Some (a - b)) (real_of_int (unbiased_denom n_batch_fr))"

definition mmd_surr_phi_unbiased ::
  "nat \<Rightarrow> nat \<Rightarrow> real list \<Rightarrow> real tensor2 \<Rightarrow> real list \<Rightarrow> error + real option" where
  "mmd_surr_phi_unbiased n_d n_batch_fr lp phi_fr sum_phi_d =
     (case bcast2 (*) [lp] phi_fr of
        Inl e \<Rightarrow> Inl e
      | Inr log_proba_phi \<Rightarrow>
          (case bcast (*) (map sum_list log_proba_phi) (map sum_list phi_fr) of
             None \<Rightarrow> Inl RuntimeError
           | Some a \<Rightarrow>
               (case bcast2 (*) log_proba_phi phi_fr of
                  Inl e \<Rightarrow> Inl e
                | Inr b \<Rightarrow>
                    if n_d * n_batch_fr = 0 then Inl ZeroDivisionError
                    else
                      (case bcast (*) sum_phi_d (map sum_list log_proba_phi) of
                         None \<Rightarrow> Inl RuntimeError
                       | Some c \<Rightarrow>
                           Inr (map_option
                                  (\<lambda>v. 2 * v - 2 / real (n_d * n_batch_fr) * sum_list c)
                                  (norm2_fr (sum_list a) (sum_list (concat b)) n_batch_fr))))))"

text \<open>
  Kernel mode, \<^verbatim>\<open>not biased\<close>, lines 152 to 154:
  \<^verbatim>\<open>
  gramian_fr_fr.fill_diagonal_(0)
  mmd_surr = 2 * torch.sum(log_proba[:, None] * gramian_fr_fr) / (n_batch_fr * (n_batch_fr - 1))
             - 2 * torch.mean(log_proba[None, :] * gramian_d_fr)
  \<close>
  \<^verbatim>\<open>torch.mean\<close> of no element is \<^verbatim>\<open>nan\<close>.
\<close>

definition fill_diagonal_zero :: "real tensor2 \<Rightarrow> real tensor2" where
  "fill_diagonal_zero G = map (\<lambda>i. (G ! i)[i := 0]) [0..<length G]"

definition mean_t :: "real list \<Rightarrow> real option" where
  "mean_t xs = div_t (Some (sum_list xs)) (real (length xs))"

definition kernel_norm2_fr :: "real \<Rightarrow> nat \<Rightarrow> real option" where
  "kernel_norm2_fr a n_batch_fr = div_t (Some (2 * a)) (real_of_int (unbiased_denom n_batch_fr))"

definition mmd_surr_kernel_unbiased ::
  "nat \<Rightarrow> real list \<Rightarrow> real tensor2 \<Rightarrow> real tensor2 \<Rightarrow> error + real option" where
  "mmd_surr_kernel_unbiased n_batch_fr lp gramian_fr_fr gramian_d_fr =
     (case bcast2 (*) (map (\<lambda>l. [l]) lp) (fill_diagonal_zero gramian_fr_fr) of
        Inl e \<Rightarrow> Inl e
      | Inr a \<Rightarrow>
          (case bcast2 (*) [lp] gramian_d_fr of
             Inl e \<Rightarrow> Inl e
           | Inr b \<Rightarrow>
               Inr (case kernel_norm2_fr (sum_list (concat a)) n_batch_fr of
                      None \<Rightarrow> None
                    | Some x \<Rightarrow> map_option (\<lambda>y. x - 2 * y) (mean_t (concat b)))))"

section \<open>The score\<close>

text \<open>
  \<^verbatim>\<open>torch.einsum('tka,tk->ka', X, W)\<close>: entry \<open>[k][a]\<close> is the sum over the time bins of
  \<open>X[t][k][a] * W[t][k]\<close>.  The time and trial axes of \<open>X\<close> and \<open>W\<close> have to agree, an
  axis of size 1 again counting as a mismatch; without time bins the result is empty.
  The products of one time bin are formed first, then the bins are added up.
\<close>

definition einsum_tka_tk :: "tensor3 \<Rightarrow> real option tensor2 \<Rightarrow> error + real option tensor2" where
  "einsum_tka_tk X W =
     (if list_all2 (\<lambda>x w. length x = length w) X W then
        Inr (case map2 (map2 (\<lambda>x w. map (times_t w) x)) X W of
               [] \<Rightarrow> []
             | bin # bins \<Rightarrow> foldl (map2 (map2 plus_t)) bin bins)
      else Inl RuntimeError)"

text \<open>
  Lines 72 to 80:
  \<^verbatim>\<open>
  u = torch.einsum('tka,a->tk', X, theta_g)
  r = self.non_linearity_torch(u)
  exp_r = torch.exp(r * dt)
  score = dt * torch.einsum('tka,tk->ka', X, r / (exp_r - 1) * mask_spikes.double()) -
          dt * torch.einsum('tka,tk->ka', X, r * (1 - mask_spikes.double()))
  \<close>
\<close>

definition score ::
  "(real \<Rightarrow> real) \<Rightarrow> real list \<Rightarrow> real \<Rightarrow> real tensor2 \<Rightarrow> tensor3 \<Rightarrow> error + real option tensor2" where
  "score non_linearity_torch theta_g dt mask_spikes X =
     (case rate non_linearity_torch X theta_g of
        Inl e \<Rightarrow> Inl e
      | Inr r \<Rightarrow>
          (case bcast2 (\<lambda>r m. times_t (div_t (Some r) (exp (r * dt) - 1)) m) r mask_spikes of
             Inl e \<Rightarrow> Inl e
           | Inr w_spike \<Rightarrow>
               (case einsum_tka_tk X w_spike of
                  Inl e \<Rightarrow> Inl e
                | Inr s_spike \<Rightarrow>
                    (case bcast2 (\<lambda>r m. Some (r * (1 - m))) r mask_spikes of
                       Inl e \<Rightarrow> Inl e
                     | Inr w_silent \<Rightarrow>
                         (case einsum_tka_tk X w_silent of
                            Inl e \<Rightarrow> Inl e
                          | Inr s_silent \<Rightarrow>
                              bcast2 (\<lambda>a b. plus_t (times_t a dt) (times_t b (- dt)))
                                s_spike s_silent)))))"

text \<open>
  Line 172, with the names as they are bound at that point of the loop body:
  \<^verbatim>\<open>scores = self._score(dt, mask_spikes_fr, X_fr)\<close>, where \<^verbatim>\<open>mask_spikes_fr\<close> is the
  concatenation of line 125 and \<^verbatim>\<open>X_fr\<close> the design matrix of the forward pass of line 114.
\<close>

definition control_variate_scores ::
  "(real \<Rightarrow> real) \<Rightarrow> real list \<Rightarrow> real \<Rightarrow> real tensor2 list \<Rightarrow> tensor3 \<Rightarrow>
     error + real option tensor2" where
  "control_variate_scores non_linearity_torch theta_g dt mask_spikes_fr_list X_fr =
     (case cat1 mask_spikes_fr_list of
        Inl e \<Rightarrow> Inl e
      | Inr mask_spikes_fr \<Rightarrow> score non_linearity_torch theta_g dt mask_spikes_fr X_fr)"

section \<open>Rates in binary64 arithmetic\<close>

text \<open>
  The sections above and below compute with exact reals.  Whether a rate can be 0 is
  decided by the element type of the tensors instead: \<^verbatim>\<open>X_fr\<close> and \<^verbatim>\<open>theta_g\<close> are
  \<^verbatim>\<open>double\<close> tensors, so every operation of line 12 returns an IEEE 754 binary64 number.
  This section repeats line 12 with that rounding.

  A binary64 number is \<open>m * 2 ^ e\<close> with an integer \<open>m\<close> of at most 53 bits and
  \<open>- 1074 \<le> e\<close>; around a real \<open>x\<close> the numbers are \<open>2 ^ e\<close> apart for
  \<open>e = max (\<lfloor>log 2 \<bar>x\<bar>\<rfloor> - 52) (- 1074)\<close>.  A result is rounded to the nearest of
  them, a tie to the one with the even \<open>m\<close>; a rounded magnitude of \<open>2 ^ 1024\<close> or more
  is \<^verbatim>\<open>inf\<close>, which is \<open>None\<close> here as everywhere.  \<^verbatim>\<open>torch.exp\<close> and \<^verbatim>\<open>torch.log\<close> are taken
  to return the rounded exact value, as the addition does.
\<close>

definition pow2 :: "int \<Rightarrow> real" where
  "pow2 e = (if 0 \<le> e then 2 ^ nat e else 1 / 2 ^ nat (- e))"

definition round_half_even :: "real \<Rightarrow> int" where
  "round_half_even x =
     (let n = \<lfloor>x\<rfloor>; d = x - of_int n
      in if d < 1 / 2 then n else if 1 / 2 < d then n + 1 else if even n then n else n + 1)"

definition grid_exponent :: "real \<Rightarrow> int" where
  "grid_exponent x = max (\<lfloor>log 2 \<bar>x\<bar>\<rfloor> - 52) (- 1074)"

definition round64 :: "real \<Rightarrow> real" where
  "round64 x =
     (if x = 0 then 0
      else of_int (round_half_even (x / pow2 (grid_exponent x))) * pow2 (grid_exponent x))"

definition f64 :: "real \<Rightarrow> real option" where
  "f64 x = (if 2 ^ 1024 \<le> \<bar>round64 x\<bar> then None else Some (round64 x))"

text \<open>\<^verbatim>\<open>torch.exp(x)\<close>, and \<^verbatim>\<open>torch.log(x)\<close> with \<^verbatim>\<open>-inf\<close> at 0 and \<^verbatim>\<open>nan\<close> below.\<close>

definition exp_f64 :: "real \<Rightarrow> real option" where
  "exp_f64 u = f64 (exp u)"

definition log_f64 :: "real \<Rightarrow> real option" where
  "log_f64 x = (if 0 < x then f64 (ln x) else None)"

text \<open>
  \<^verbatim>\<open>torch.log(1 + torch.exp(x))\<close>: three rounded operations; once \<^verbatim>\<open>torch.exp\<close> is \<^verbatim>\<open>inf\<close>
  the sum and the logarithm are \<^verbatim>\<open>inf\<close> too.
\<close>

definition log_exp_f64 :: "real \<Rightarrow> real option" where
  "log_exp_f64 u =
     (case exp_f64 u of
        None \<Rightarrow> None
      | Some e \<Rightarrow> (case f64 (1 + e) of None \<Rightarrow> None | Some s \<Rightarrow> log_f64 s))"

definition dic_nonlinearities_f64 :: "string \<rightharpoonup> (real \<Rightarrow> real option)" where
  "dic_nonlinearities_f64 = [''exp'' \<mapsto> exp_f64, ''log_exp'' \<mapsto> log_exp_f64]"

text \<open>Line 47, \<^verbatim>\<open>r_fr = self.non_linearity_torch(u_fr)\<close>: entry by entry.\<close>

definition rate_of_u :: "(real \<Rightarrow> real option) \<Rightarrow> real tensor2 \<Rightarrow> real option tensor2" where
  "rate_of_u non_linearity_torch u = map (map non_linearity_torch) u"

chapter \<open>Properties\<close>

section \<open>Properties of the history buffer\<close>

lemma buffer_update_below:
  assumes "int (length ml) < n"
  shows "buffer_update n (rl, ml) r m = Inr (rl @ [r], ml @ [m])"
  using assms by (simp add: buffer_update_def)

lemma buffer_update_full:
  assumes "n \<le> int (length (y # ml))"
  shows "buffer_update n (x # rl, y # ml) r m = Inr (rl @ [r], ml @ [m])"
  using assms by (simp add: buffer_update_def pop0_def)

text \<open>
  The invariant of the loop: both lists are the last entries of what was pushed so far,
  at most \<open>n\<close> of them.
\<close>

lemma buffer_update_window:
  assumes n: "1 \<le> n"
    and h: "rl = map fst (drop (length done - nat n) done)"
           "ml = map snd (drop (length done - nat n) done)"
  shows "buffer_update n (rl, ml) (fst s) (snd s) =
           Inr (map fst (drop (length (done @ [s]) - nat n) (done @ [s])),
                map snd (drop (length (done @ [s]) - nat n) (done @ [s])))"
proof (cases "length done < nat n")
  case True
  then have "int (length ml) < n" using h by simp
  moreover have "length done - nat n = 0" "Suc (length done) - nat n = 0"
    using True by simp_all
  ultimately show ?thesis using h by (simp add: buffer_update_below)
next
  case False
  then have ge: "nat n \<le> length done" by simp
  define k where "k = length done - nat n"
  have len: "length (drop k done) = nat n" using ge by (simp add: k_def)
  have pos: "0 < nat n" using n by simp
  obtain x rest where xr: "drop k done = x # rest"
    using len pos by (cases "drop k done") auto
  have k_lt: "k < length done" using ge pos by (simp add: k_def)
  have next_drop: "drop (Suc k) done = rest"
    using xr by (metis drop_Suc tl_drop list.sel(3))
  have full: "n \<le> int (length (snd x # map snd rest))"
    using len xr by simp
  have suc: "length (done @ [s]) - nat n = Suc k"
    using ge by (simp add: k_def)
  have "buffer_update n (rl, ml) (fst s) (snd s) =
          Inr (map fst rest @ [fst s], map snd rest @ [snd s])"
    using h xr full by (simp add: k_def [symmetric] buffer_update_full)
  also have "map fst rest @ [fst s] = map fst (drop (Suc k) (done @ [s]))"
    using next_drop k_lt by simp
  also have "map snd rest @ [snd s] = map snd (drop (Suc k) (done @ [s]))"
    using next_drop k_lt by simp
  finally show ?thesis by (simp only: suc)
qed

lemma buffer_run_window:
  assumes "1 \<le> n"
    and "rl = map fst (drop (length done - nat n) done)"
    and "ml = map snd (drop (length done - nat n) done)"
  shows "buffer_run n (rl, ml) samples =
           Inr (map fst (drop (length (done @ samples) - nat n) (done @ samples)),
                map snd (drop (length (done @ samples) - nat n) (done @ samples)))"
  using assms
proof (induction samples arbitrary: rl ml "done")
  case Nil
  then show ?case by simp
next
  case (Cons s samples)
  let ?d = "done @ [s]"
  have step: "buffer_update n (rl, ml) (fst s) (snd s) =
      Inr (map fst (drop (length ?d - nat n) ?d), map snd (drop (length ?d - nat n) ?d))"
    using Cons.prems by (rule buffer_update_window)
  have "buffer_run n (map fst (drop (length ?d - nat n) ?d),
                      map snd (drop (length ?d - nat n) ?d)) samples =
      Inr (map fst (drop (length (?d @ samples) - nat n) (?d @ samples)),
           map snd (drop (length (?d @ samples) - nat n) (?d @ samples)))"
    using Cons.prems(1) by (intro Cons.IH) simp_all
  then show ?case using step by simp
qed

text \<open>
  Claim C2.  With a capacity \<open>n_iterations_store \<ge> 1\<close>, pushing any sequence of entries into
  the empty buffer never raises and never leaves more than the capacity in either list;
  once \<open>capacity + k\<close> entries were pushed, both lists hold exactly the last \<open>capacity\<close>
  of them, in the order they were pushed (the first \<open>k\<close> were popped at index 0).
\<close>

theorem history_buffer_fifo:
  assumes "1 \<le> n"
  shows "\<exists>rl ml. buffer_run n ([], []) pushed = Inr (rl, ml)
           \<and> length rl \<le> nat n \<and> length ml \<le> nat n
           \<and> (\<forall>k. length pushed = nat n + k \<longrightarrow>
                  length rl = nat n \<and> length ml = nat n
                  \<and> rl = map fst (drop k pushed) \<and> ml = map snd (drop k pushed))"
proof -
  let ?w = "drop (length pushed - nat n) pushed"
  have "buffer_run n ([], []) pushed =
          Inr (map fst (drop (length ([] @ pushed) - nat n) ([] @ pushed)),
               map snd (drop (length ([] @ pushed) - nat n) ([] @ pushed)))"
    using assms by (intro buffer_run_window) simp_all
  then have run: "buffer_run n ([], []) pushed = Inr (map fst ?w, map snd ?w)" by simp
  have "length ?w \<le> nat n" by simp
  moreover have "length ?w = nat n \<and> ?w = drop k pushed" if "length pushed = nat n + k" for k
    using that by simp
  ultimately show ?thesis using run by simp
qed

theorem history_buffer_fifo_witness:
  "buffer_run 2 ([], []) [(1::nat, 10::nat), (2, 20), (3, 30)] = Inr ([2, 3], [20, 30])"
proof -
  have h: "(1::int) \<le> 2" by simp
  obtain rl ml where run: "buffer_run 2 ([], []) [(1::nat, 10::nat), (2, 20), (3, 30)] = Inr (rl, ml)"
    and last: "\<forall>k. length [(1::nat, 10::nat), (2, 20), (3, 30)] = nat 2 + k \<longrightarrow>
                  length rl = nat 2 \<and> length ml = nat 2
                  \<and> rl = map fst (drop k [(1::nat, 10::nat), (2, 20), (3, 30)])
                  \<and> ml = map snd (drop k [(1::nat, 10::nat), (2, 20), (3, 30)])"
    using history_buffer_fifo [OF h, of "[(1::nat, 10::nat), (2, 20), (3, 30)]"] by blast
  from last [rule_format, of 1] have "rl = [2, 3]" "ml = [20, 30]" by simp_all
  then show ?thesis using run by simp
qed

section \<open>The discount weights\<close>

lemma weights_nth:
  assumes "i < m" "j < n"
  shows "weights beta m n ! (i * n + j) = beta ^ i"
  using assms
proof (induction m)
  case 0
  then show ?case by simp
next
  case (Suc m)
  have len: "length (weights beta m n) = m * n"
    by (induction m) (simp_all add: weights_def)
  have unfold: "weights beta (Suc m) n = weights beta m n @ replicate n (beta ^ m)"
    by (simp add: weights_def)
  show ?case
  proof (cases "i < m")
    case True
    then have "i * n + j < m * n"
      using Suc.prems(2) by (metis add.commute less_le_trans mult_Suc Suc_leI mult_le_mono1 nat_add_left_cancel_less)
    then show ?thesis using Suc.IH True Suc.prems(2) by (simp add: unfold nth_append len)
  next
    case False
    then have "i = m" using Suc.prems(1) by simp
    then show ?thesis using Suc.prems(2) by (simp add: unfold nth_append len)
  qed
qed

lemma weights_one: "weights beta (Suc 0) n = replicate n 1"
  by (simp add: weights_def)

text \<open>
  Claim C1.  The code counts the exponent from the front of the list, not from the most
  recent entry.  With capacity 2, one trial per forward pass and \<open>beta = 1/2\<close>, the batch
  of the second epoch has the trial of the first epoch in column 0 with weight
  \<open>beta ^ 0 = 1\<close> and the trial just simulated in column 1 with weight \<open>beta ^ 1 = 1/2\<close>.
\<close>

theorem weights_count_from_oldest:
  "batches_run 2 (1/2) 1 ([], []) [([[10]], [[0]]), ([[20]], [[1]])]
     = Inr [([[10]], [[0]], [1]),
            ([[10, 20]], [[0, 1]], [1, 1/2])]
   \<and> weights (1/2) 2 1 ! 1 \<noteq> (1/2) ^ 0
   \<and> weights (1/2) 2 1 ! 0 \<noteq> (1/2) ^ (2 - 1)"
  by (simp add: buffer_update_def effective_batch_def cat1_def weights_def upt_rec)

section \<open>Capacity one\<close>

lemma cat1_single: "cat1 [t] = Inr t"
  by (simp add: cat1_def)

lemma batches_run_capacity_one:
  assumes "length rl = length ml" "length ml \<le> 1"
  shows "batches_run 1 beta n (rl, ml) samples = Inr (no_history_run n samples)"
  using assms
proof (induction samples arbitrary: rl ml)
  case Nil
  then show ?case by (simp add: no_history_run_def)
next
  case (Cons s samples)
  have upd: "buffer_update 1 (rl, ml) (fst s) (snd s) = Inr ([fst s], [snd s])"
  proof (cases ml)
    case Nil
    then show ?thesis using Cons.prems by (simp add: buffer_update_def)
  next
    case (Cons y ys)
    then obtain x where "rl = [x]" "ml = [y]"
      using Cons.prems by (cases rl) auto
    then show ?thesis by (simp add: buffer_update_def pop0_def)
  qed
  have eff: "effective_batch beta n ([fst s], [snd s]) = Inr (fst s, snd s, replicate n 1)"
    by (simp add: effective_batch_def cat1_single weights_one)
  have "batches_run 1 beta n ([fst s], [snd s]) samples = Inr (no_history_run n samples)"
    by (rule Cons.IH) simp_all
  then show ?case using upd eff by (simp add: no_history_run_def)
qed

text \<open>
  Claim C3.  With \<open>n_iterations_store = 1\<close> the loop with the buffer is the loop without
  history: in every epoch the concatenated rate and spike mask are the ones the forward
  pass of that epoch returned, and every trial has weight 1.
\<close>

theorem capacity_one_is_no_history:
  "batches_run 1 beta n_batch_fr ([], []) samples = Inr (no_history_run n_batch_fr samples)"
  by (rule batches_run_capacity_one) simp_all

theorem capacity_one_is_no_history_witness:
  "batches_run 1 (1/2) 2 ([], []) [([[1::nat, 2]], [[True, False]]), ([[3, 4]], [[False, False]])]
     = Inr [([[1, 2]], [[True, False]], [1, 1]), ([[3, 4]], [[False, False]], [1, 1])]"
  using capacity_one_is_no_history [of "1/2" 2 "[([[1::nat, 2]], [[True, False]]), ([[3, 4]], [[False, False]])]"]
  by (simp add: no_history_run_def numeral_2_eq_2)

section \<open>The order of the steps\<close>

lemma run_stages_append:
  "run_stages (fs @ gs) s = (case run_stages fs s of Inl e \<Rightarrow> Inl e | Inr s' \<Rightarrow> run_stages gs s')"
  by (induction fs arbitrary: s) (simp_all split: sum.splits)

lemma run_stages_ConsE:
  assumes "run_stages (f # fs) s = Inr s'"
  obtains s1 where "f s = Inr s1" "run_stages fs s1 = Inr s'"
  using assms by (cases "f s") simp_all

lemma run_stages_optE:
  assumes "run_stages ((if b then [f] else []) @ fs) s = Inr s'"
  obtains s1 where "if b then f s = Inr s1 else s1 = s" "run_stages fs s1 = Inr s'"
  using assms by (cases b; cases "f s") simp_all

lemma perform_InrD:
  assumes "perform w e st s = Inr s'"
  shows "s' = s\<lparr>events := events s @ [(e, st)]\<rparr>"
  using assms by (simp add: perform_def split: option.splits)

lemma buffer_stage_InrD:
  assumes "buffer_stage c w e s = Inr s'"
  shows "events s' = events s @ [(e, BufferUpdate)] \<and> loss s' = loss s"
  using assms
  by (auto simp: buffer_stage_def dest!: perform_InrD split: sum.splits)

lemma loss_stage_InrD:
  assumes "loss_stage c w e s = Inr s'"
  shows "events s' = events s @ [(e, LossAssembly)] \<and> loss s' = loss s"
  using assms
  by (auto simp: loss_stage_def dest!: perform_InrD split: sum.splits)

lemma metrics_stage_InrD:
  assumes "metrics_stage c w e s = Inr s'"
  shows "events s' = events s @ (if int e mod n_metrics c = 0 then [(e, MetricsRecord)] else [])
           \<and> loss s' = loss s"
  using assms
  by (auto simp: metrics_stage_def dest!: perform_InrD split: sum.splits if_splits)

lemma epoch_body_InrD:
  assumes "epoch_body c w e s = Inr s'"
  shows "events s' = events s @ map (Pair e)
            (code_epoch_order (control_variates c) (clip_given c) (int e mod n_metrics c = 0))"
    and "loss s' = loss s @ [loss_item_at w e]"
proof -
  from assms obtain s1 s2 s3 s4 where
    1: "perform w e SampleStep s = Inr s1" and
    2: "buffer_stage c w e s1 = Inr s2" and
    3: "loss_stage c w e s2 = Inr s3" and
    4: "perform w e Backprop s3 = Inr s4" and
    r4: "run_stages ((if control_variates c then [perform w e ControlVariateInjection] else [])
            @ (if clip_given c then [perform w e GradientClip] else [])
            @ [metrics_stage c w e, perform w e OptimizerStep, perform w e ParamSync,
               loss_append w e]) s4 = Inr s'"
    unfolding epoch_body_def append_Cons append_Nil
    by (elim run_stages_ConsE) blast
  from r4 obtain s5 where
    5: "if control_variates c then perform w e ControlVariateInjection s4 = Inr s5 else s5 = s4" and
    r5: "run_stages ((if clip_given c then [perform w e GradientClip] else [])
            @ [metrics_stage c w e, perform w e OptimizerStep, perform w e ParamSync,
               loss_append w e]) s5 = Inr s'"
    by (rule run_stages_optE)
  from r5 obtain s6 where
    6: "if clip_given c then perform w e GradientClip s5 = Inr s6 else s6 = s5" and
    r6: "run_stages [metrics_stage c w e, perform w e OptimizerStep, perform w e ParamSync,
               loss_append w e] s6 = Inr s'"
    by (rule run_stages_optE)
  from r6 obtain s7 s8 s9 where
    7: "metrics_stage c w e s6 = Inr s7" and
    8: "perform w e OptimizerStep s7 = Inr s8" and
    9: "perform w e ParamSync s8 = Inr s9" and
    10: "loss_append w e s9 = Inr s'"
    by (elim run_stages_ConsE) simp
  have e4: "events s4 = events s @ map (Pair e) [SampleStep, BufferUpdate, LossAssembly, Backprop]"
    and l4: "loss s4 = loss s"
    using perform_InrD [OF 1] buffer_stage_InrD [OF 2] loss_stage_InrD [OF 3] perform_InrD [OF 4]
    by simp_all
  have e5: "events s5 = events s4 @ map (Pair e) (if control_variates c then [ControlVariateInjection] else [])"
    and l5: "loss s5 = loss s4"
    using 5 by (auto dest!: perform_InrD split: if_splits)
  have e6: "events s6 = events s5 @ map (Pair e) (if clip_given c then [GradientClip] else [])"
    and l6: "loss s6 = loss s5"
    using 6 by (auto dest!: perform_InrD split: if_splits)
  have e7: "events s7 = events s6 @ map (Pair e) (if int e mod n_metrics c = 0 then [MetricsRecord] else [])"
    and l7: "loss s7 = loss s6"
    using metrics_stage_InrD [OF 7] by simp_all
  have e9: "events s9 = events s7 @ map (Pair e) [OptimizerStep, ParamSync]"
    and l9: "loss s9 = loss s7"
    using perform_InrD [OF 8] perform_InrD [OF 9] by simp_all
  have last: "events s' = events s9" "loss s' = loss s9 @ [loss_item_at w e]"
    using 10 by (auto simp: loss_append_def)
  show "events s' = events s @ map (Pair e)
            (code_epoch_order (control_variates c) (clip_given c) (int e mod n_metrics c = 0))"
    by (simp only: last e9 e7 e6 e5 e4 code_epoch_order_def map_append append_assoc)
  show "loss s' = loss s @ [loss_item_at w e]"
    by (simp only: last l9 l7 l6 l5 l4)
qed

lemma epochs_InrD:
  assumes "run_stages (map (epoch_body c w) [a..<a + k]) s = Inr s'"
  shows "events s' = events s @ concat (map (\<lambda>e. map (Pair e)
            (code_epoch_order (control_variates c) (clip_given c) (int e mod n_metrics c = 0)))
            [a..<a + k])"
    and "length (loss s') = length (loss s) + k"
  using assms
proof (induction k arbitrary: s')
  case 0
  { case 1 then show ?case by simp }
  { case 2 then show ?case by simp }
next
  case (Suc k)
  have split: "[a..<a + Suc k] = [a..<a + k] @ [a + k]" by simp
  { case 1
    then obtain s1 where a: "run_stages (map (epoch_body c w) [a..<a + k]) s = Inr s1"
      and b: "epoch_body c w (a + k) s1 = Inr s'"
      unfolding split map_append run_stages_append
      by (auto split: sum.splits)
    show ?case using Suc.IH(1) [OF a] epoch_body_InrD(1) [OF b] unfolding split by simp }
  { case 2
    then obtain s1 where a: "run_stages (map (epoch_body c w) [a..<a + k]) s = Inr s1"
      and b: "epoch_body c w (a + k) s1 = Inr s'"
      unfolding split map_append run_stages_append
      by (auto split: sum.splits)
    show ?case using Suc.IH(2) [OF a] epoch_body_InrD(2) [OF b] by simp }
qed

text \<open>
  Claim C5 fails as stated: the metrics are recorded before the optimizer step.  In a
  run of one epoch (epoch 0 is always a recording epoch) the log of the steps is not the
  order of the specification.
\<close>

theorem metrics_recorded_before_optimizer_step:
  "\<exists>s. train_loop
        \<lparr>num_epochs = 1, n_iterations_store = 1, n_metrics = 25, log_likelihood = False,
         control_variates = False, clip_given = False\<rparr>
        \<lparr>raises = \<lambda>e st. None, forward_at = \<lambda>e. (e, e), loss_item_at = \<lambda>e. e,
         nll_item_at = \<lambda>e. e, metrics_at = \<lambda>e. [(''mmd'', e)]\<rparr> = Inr s
     \<and> map snd (events s) =
          [SampleStep, BufferUpdate, LossAssembly, Backprop, MetricsRecord, OptimizerStep, ParamSync]
     \<and> map snd (events s) \<noteq> spec_epoch_order False False True"
  by (simp add: train_loop_def epoch_body_def perform_def buffer_stage_def buffer_update_def
      loss_stage_def metrics_stage_def loss_append_def init_state_def spec_epoch_order_def)

text \<open>
  Claim C5, amended.  Within every epoch that runs through, the steps occur in the order
  SampleStep, BufferUpdate, LossAssembly, Backprop, optional ControlVariateInjection,
  optional GradientClip, optional MetricsRecord, OptimizerStep, ParamSync: on a recording
  epoch (\<^verbatim>\<open>epoch % n_metrics == 0\<close>) MetricsRecord comes after the gradients are final and
  before the OptimizerStep and the ParamSync of that epoch.  A loop that completes has
  gone through the epochs \<open>0, ..., num_epochs - 1\<close> in this way, one after the other.
\<close>

theorem epoch_steps_in_source_order:
  "(\<forall>e s s'. epoch_body c w e s = Inr s' \<longrightarrow>
      events s' = events s @ map (Pair e)
        (code_epoch_order (control_variates c) (clip_given c) (int e mod n_metrics c = 0)))
   \<and> (\<forall>s. train_loop c w = Inr s \<longrightarrow>
      events s = concat (map (\<lambda>e. map (Pair e)
        (code_epoch_order (control_variates c) (clip_given c) (int e mod n_metrics c = 0)))
        [0..<nat (num_epochs c)]))"
proof (intro conjI allI impI)
  fix e s s'
  assume "epoch_body c w e s = Inr s'"
  then show "events s' = events s @ map (Pair e)
        (code_epoch_order (control_variates c) (clip_given c) (int e mod n_metrics c = 0))"
    by (rule epoch_body_InrD(1))
next
  fix s
  assume "train_loop c w = Inr s"
  then show "events s = concat (map (\<lambda>e. map (Pair e)
        (code_epoch_order (control_variates c) (clip_given c) (int e mod n_metrics c = 0)))
        [0..<nat (num_epochs c)])"
    using epochs_InrD(1) [of c w 0 "nat (num_epochs c)" init_state s]
    by (simp add: train_loop_def init_state_def)
qed

theorem epoch_steps_in_source_order_witness:
  "\<exists>s. train_loop
        \<lparr>num_epochs = 2, n_iterations_store = 1, n_metrics = 25, log_likelihood = False,
         control_variates = True, clip_given = False\<rparr>
        \<lparr>raises = \<lambda>e st. None, forward_at = \<lambda>e. (e, e), loss_item_at = \<lambda>e. e,
         nll_item_at = \<lambda>e. e, metrics_at = \<lambda>e. [(''mmd'', e)]\<rparr> = Inr s
     \<and> events s =
          [(0, SampleStep), (0, BufferUpdate), (0, LossAssembly), (0, Backprop),
           (0, ControlVariateInjection), (0, MetricsRecord), (0, OptimizerStep), (0, ParamSync),
           (1, SampleStep), (1, BufferUpdate), (1, LossAssembly), (1, Backprop),
           (1, ControlVariateInjection), (1, OptimizerStep), (1, ParamSync)]"
proof -
  let ?c = "\<lparr>num_epochs = 2, n_iterations_store = 1, n_metrics = 25, log_likelihood = False,
         control_variates = True, clip_given = False\<rparr>"
  let ?w = "\<lparr>raises = \<lambda>e st. None, forward_at = \<lambda>e. (e, e), loss_item_at = \<lambda>e. e,
         nll_item_at = \<lambda>e. e, metrics_at = \<lambda>e. [(''mmd'', e)]\<rparr> :: (nat, nat, nat) run"
  have "isl (train_loop ?c ?w) = False"
    by (simp add: train_loop_def epoch_body_def perform_def buffer_stage_def buffer_update_def
        loss_stage_def metrics_stage_def loss_append_def init_state_def pop0_def numeral_2_eq_2)
  then obtain s where s: "train_loop ?c ?w = Inr s"
    by (cases "train_loop ?c ?w") simp_all
  have "events s =
          [(0, SampleStep), (0, BufferUpdate), (0, LossAssembly), (0, Backprop),
           (0, ControlVariateInjection), (0, MetricsRecord), (0, OptimizerStep), (0, ParamSync),
           (1, SampleStep), (1, BufferUpdate), (1, LossAssembly), (1, Backprop),
           (1, ControlVariateInjection), (1, OptimizerStep), (1, ParamSync)]"
    using epoch_steps_in_source_order [of ?c ?w] s
    by (simp add: code_epoch_order_def numeral_2_eq_2)
  then show ?thesis using s by blast
qed

section \<open>What \<^verbatim>\<open>train\<close> returns\<close>

lemma buffer_update_in_step:
  assumes "1 \<le> n" "length rl = length ml"
  shows "\<exists>rl' ml'. buffer_update n (rl, ml) r m = Inr (rl', ml') \<and> length rl' = length ml'"
proof (cases "n \<le> int (length ml)")
  case True
  then obtain y ys where ml: "ml = y # ys" using assms(1) by (cases ml) auto
  then obtain x xs where rl: "rl = x # xs" using assms(2) by (cases rl) auto
  show ?thesis using True assms(2) by (simp add: ml rl buffer_update_def pop0_def)
next
  case False
  then show ?thesis using assms(2) by (simp add: buffer_update_def)
qed

lemma dom_start_metrics: "dom (start_metrics items) = fst ` set items"
proof -
  have "dom (fold (\<lambda>kv d. d(fst kv \<mapsto> [snd kv])) items d0) = dom d0 \<union> fst ` set items" for d0 :: "string \<rightharpoonup> 'a list"
    by (induction items arbitrary: d0) auto
  then show ?thesis by (simp add: start_metrics_def)
qed

lemma append_metrics_known_keys:
  assumes "fst ` set items \<subseteq> dom d"
  shows "\<exists>d'. append_metrics items (Some d) = Inr (Some d') \<and> dom d' = dom d"
  using assms
proof (induction items arbitrary: d)
  case Nil
  then show ?case by simp
next
  case (Cons kv items)
  then obtain vs where vs: "d (fst kv) = Some vs" by auto
  let ?d = "d(fst kv \<mapsto> vs @ [snd kv])"
  have dom: "dom ?d = dom d" using vs by auto
  then have "fst ` set items \<subseteq> dom ?d" using Cons.prems by auto
  from Cons.IH [OF this] obtain d' where
    "append_metrics items (Some ?d) = Inr (Some d')" "dom d' = dom ?d" by blast
  then have "append_metrics (kv # items) (Some d) = Inr (Some d')" "dom d' = dom d"
    using vs dom by simp_all
  then show ?case by blast
qed
lemma epoch_body_returns:
  assumes store: "1 \<le> n_iterations_store c"
    and period: "n_metrics c \<noteq> 0"
    and quiet: "\<And>e st. raises w e st = None"
    and keys: "\<And>e. fst ` set (metrics_at w e) \<subseteq> fst ` set (metrics_at w 0)"
    and inv: "between_epochs w k s"
  shows "\<exists>s'. epoch_body c w k s = Inr s' \<and> between_epochs w (Suc k) s'"
proof -
  define s1 where "s1 = s\<lparr>events := events s @ [(k, SampleStep)]\<rparr>"
  have 1: "perform w k SampleStep s = Inr s1" by (simp add: perform_def quiet s1_def)
  have lens: "length (fst (hist s1)) = length (snd (hist s1))"
    using inv by (simp add: between_epochs_def s1_def)
  obtain rl ml where
    upd: "buffer_update (n_iterations_store c) (hist s1) (fst (forward_at w k)) (snd (forward_at w k))
            = Inr (rl, ml)" and len: "length rl = length ml"
    using buffer_update_in_step [OF store lens, of "fst (forward_at w k)" "snd (forward_at w k)"]
    by auto
  define s2 where "s2 = s1\<lparr>hist := (rl, ml), events := events s1 @ [(k, BufferUpdate)]\<rparr>"
  have 2: "buffer_stage c w k s1 = Inr s2"
    by (simp add: buffer_stage_def upd perform_def quiet s2_def)
  define s3 where "s3 = (let t = s2\<lparr>events := events s2 @ [(k, LossAssembly)]\<rparr>
                         in if log_likelihood c then t\<lparr>nll := nll t @ [nll_item_at w k]\<rparr> else t)"
  have 3: "loss_stage c w k s2 = Inr s3"
    by (simp add: loss_stage_def perform_def quiet s3_def Let_def)
  define s4 where "s4 = s3\<lparr>events := events s3 @ [(k, Backprop)]\<rparr>"
  have 4: "perform w k Backprop s3 = Inr s4" by (simp add: perform_def quiet s4_def)
  define s5 where "s5 = (if control_variates c
      then s4\<lparr>events := events s4 @ [(k, ControlVariateInjection)]\<rparr> else s4)"
  define s6 where "s6 = (if clip_given c
      then s5\<lparr>events := events s5 @ [(k, GradientClip)]\<rparr> else s5)"
  have h6: "hist s6 = (rl, ml)" "metrics_list s6 = metrics_list s"
    by (simp_all add: s6_def s5_def s4_def s3_def s2_def s1_def Let_def)
  have "\<exists>s7. metrics_stage c w k s6 = Inr s7 \<and> hist s7 = (rl, ml)
          \<and> (\<exists>d. metrics_list s7 = Some d \<and> dom d = fst ` set (metrics_at w 0))"
  proof (cases "k = 0")
    case True
    then show ?thesis
      using period h6 by (simp add: metrics_stage_def perform_def quiet dom_start_metrics)
  next
    case False
    then obtain d where d: "metrics_list s6 = Some d" "dom d = fst ` set (metrics_at w 0)"
      using inv h6 by (auto simp: between_epochs_def)
    obtain d' where d': "append_metrics (metrics_at w k) (Some d) = Inr (Some d')" "dom d' = dom d"
      using append_metrics_known_keys [of "metrics_at w k" d] keys [of k] d(2) by auto
    show ?thesis
    proof (cases "int k mod n_metrics c = 0")
      case True
      then show ?thesis
        using False period h6 d d' by (simp add: metrics_stage_def perform_def quiet)
    next
      case nope: False
      then have "metrics_stage c w k s6 = Inr s6"
        using period by (simp add: metrics_stage_def)
      then show ?thesis using h6(1) d by blast
    qed
  qed
  then obtain s7 d where 7: "metrics_stage c w k s6 = Inr s7" and h7: "hist s7 = (rl, ml)"
    and m7: "metrics_list s7 = Some d" "dom d = fst ` set (metrics_at w 0)" by blast
  define s8 where "s8 = s7\<lparr>events := events s7 @ [(k, OptimizerStep)]\<rparr>"
  define s9 where "s9 = s8\<lparr>events := events s8 @ [(k, ParamSync)]\<rparr>"
  define s10 where "s10 = s9\<lparr>loss := loss s9 @ [loss_item_at w k]\<rparr>"
  have tail: "run_stages [metrics_stage c w k, perform w k OptimizerStep, perform w k ParamSync,
      loss_append w k] s6 = Inr s10"
    by (simp add: 7 perform_def quiet loss_append_def s8_def s9_def s10_def)
  have mid: "run_stages ((if control_variates c then [perform w k ControlVariateInjection] else [])
        @ (if clip_given c then [perform w k GradientClip] else [])) s4 = Inr s6"
    by (simp add: perform_def quiet s5_def s6_def)
  have front: "run_stages [perform w k SampleStep, buffer_stage c w k, loss_stage c w k,
      perform w k Backprop] s = Inr s4"
    by (simp add: 1 2 3 4)
  have "epoch_body c w k s = Inr s10"
    unfolding epoch_body_def
    using front mid tail
    by (simp only: run_stages_append append_assoc [symmetric] sum.case)
  moreover have "between_epochs w (Suc k) s10"
    using h7 m7 len by (simp add: between_epochs_def s10_def s9_def s8_def)
  ultimately show ?thesis by blast
qed

lemma epochs_return:
  assumes store: "1 \<le> n_iterations_store c"
    and period: "n_metrics c \<noteq> 0"
    and quiet: "\<And>e st. raises w e st = None"
    and keys: "\<And>e. fst ` set (metrics_at w e) \<subseteq> fst ` set (metrics_at w 0)"
  shows "\<exists>s. run_stages (map (epoch_body c w) [0..<k]) init_state = Inr s \<and> between_epochs w k s"
proof (induction k)
  case 0
  show ?case by (simp add: between_epochs_def init_state_def)
next
  case (Suc k)
  then obtain s where s: "run_stages (map (epoch_body c w) [0..<k]) init_state = Inr s"
    "between_epochs w k s" by blast
  obtain s' where "epoch_body c w k s = Inr s'" "between_epochs w (Suc k) s'"
    using epoch_body_returns [OF store period quiet keys s(2)] by blast
  then show ?case using s(1) by (simp add: run_stages_append)
qed

lemma train_returns:
  assumes "1 \<le> num_epochs c" "1 \<le> n_iterations_store c" "n_metrics c \<noteq> 0"
    and "\<And>e st. raises w e st = None"
    and "\<And>e. fst ` set (metrics_at w e) \<subseteq> fst ` set (metrics_at w 0)"
  shows "\<exists>l n d. train c w = Inr (l, n, d)"
proof -
  obtain s where s: "train_loop c w = Inr s" "between_epochs w (nat (num_epochs c)) s"
    using epochs_return [OF assms(2-5), of "nat (num_epochs c)"] by (auto simp: train_loop_def)
  then obtain d where "metrics_list s = Some d"
    using assms(1) by (auto simp: between_epochs_def)
  then show ?thesis using s(1) by (simp add: train_def)
qed

lemma train_no_epoch:
  assumes "num_epochs c \<le> 0"
  shows "train c w = Inl UnboundLocalError"
  using assms by (simp add: train_def train_loop_def init_state_def)

lemma train_returns_all_losses:
  assumes r: "train c w = Inr (l, n, d)"
  shows "1 \<le> num_epochs c" and "int (length l) = num_epochs c"
proof -
  show pos: "1 \<le> num_epochs c"
  proof (rule ccontr)
    assume "\<not> 1 \<le> num_epochs c"
    then have "train c w = Inl UnboundLocalError" by (simp add: train_no_epoch)
    then show False using r by simp
  qed
  from r obtain s where s: "train_loop c w = Inr s" and l: "l = loss s"
    by (auto simp: train_def split: sum.splits option.splits)
  have "length (loss s) = nat (num_epochs c)"
    using epochs_InrD(2) [of c w 0 "nat (num_epochs c)" init_state s] s
    by (simp add: train_loop_def init_state_def)
  then show "int (length l) = num_epochs c"
    using pos l by simp
qed

text \<open>
  Claim C10.  With \<open>num_epochs \<le> 0\<close> the loop runs no epoch, \<^verbatim>\<open>metrics_list\<close> is never
  assigned and the \<^verbatim>\<open>return\<close> raises.  Whenever \<^verbatim>\<open>train\<close> returns, \<open>num_epochs \<ge> 1\<close> and
  the list of losses has exactly \<open>num_epochs\<close> entries; and it does return for
  \<open>num_epochs \<ge> 1\<close> when the capacity is at least 1, \<open>n_metrics\<close> is not 0, no
  collaborator raises and the metrics callback yields no key that it did not yield at
  epoch 0.
\<close>

theorem train_output_contract:
  "(num_epochs c \<le> 0 \<longrightarrow> train c w = Inl UnboundLocalError)
   \<and> (\<forall>l n d. train c w = Inr (l, n, d) \<longrightarrow> 1 \<le> num_epochs c \<and> int (length l) = num_epochs c)
   \<and> (1 \<le> num_epochs c \<and> 1 \<le> n_iterations_store c \<and> n_metrics c \<noteq> 0
        \<and> (\<forall>e st. raises w e st = None)
        \<and> (\<forall>e. fst ` set (metrics_at w e) \<subseteq> fst ` set (metrics_at w 0))
      \<longrightarrow> (\<exists>l n d. train c w = Inr (l, n, d)))"
proof (intro conjI impI allI)
  assume "num_epochs c \<le> 0"
  then show "train c w = Inl UnboundLocalError" by (rule train_no_epoch)
next
  fix l n d
  assume "train c w = Inr (l, n, d)"
  then show "1 \<le> num_epochs c" "int (length l) = num_epochs c"
    by (rule train_returns_all_losses)+
next
  assume "1 \<le> num_epochs c \<and> 1 \<le> n_iterations_store c \<and> n_metrics c \<noteq> 0
        \<and> (\<forall>e st. raises w e st = None)
        \<and> (\<forall>e. fst ` set (metrics_at w e) \<subseteq> fst ` set (metrics_at w 0))"
  then show "\<exists>l n d. train c w = Inr (l, n, d)"
    by (intro train_returns) simp_all
qed

theorem train_output_contract_witness:
  "train \<lparr>num_epochs = 0, n_iterations_store = 1, n_metrics = 25, log_likelihood = False,
          control_variates = False, clip_given = False\<rparr>
         \<lparr>raises = \<lambda>e st. None, forward_at = \<lambda>e. (e, e), loss_item_at = \<lambda>e. e,
          nll_item_at = \<lambda>e. e, metrics_at = \<lambda>e. [(''mmd'', e)]\<rparr> = Inl UnboundLocalError
   \<and> (\<exists>l n d.
        train \<lparr>num_epochs = 3, n_iterations_store = 2, n_metrics = 2, log_likelihood = False,
               control_variates = False, clip_given = False\<rparr>
              \<lparr>raises = \<lambda>e st. None, forward_at = \<lambda>e. (e, e), loss_item_at = \<lambda>e. e,
               nll_item_at = \<lambda>e. e, metrics_at = \<lambda>e. [(''mmd'', e)]\<rparr> = Inr (l, n, d)
        \<and> length l = 3)"
proof -
  let ?w = "\<lparr>raises = \<lambda>e st. None, forward_at = \<lambda>e. (e, e), loss_item_at = \<lambda>e. e,
          nll_item_at = \<lambda>e. e, metrics_at = \<lambda>e. [(''mmd'', e)]\<rparr> :: (nat, nat, nat) run"
  let ?c0 = "\<lparr>num_epochs = 0, n_iterations_store = 1, n_metrics = 25, log_likelihood = False,
          control_variates = False, clip_given = False\<rparr>"
  let ?c3 = "\<lparr>num_epochs = 3, n_iterations_store = 2, n_metrics = 2, log_likelihood = False,
               control_variates = False, clip_given = False\<rparr>"
  have "train ?c0 ?w = Inl UnboundLocalError"
    using train_output_contract [of ?c0 ?w] by simp
  moreover obtain l n d where r: "train ?c3 ?w = Inr (l, n, d)"
    using train_output_contract [of ?c3 ?w] by auto
  moreover have "length l = 3"
    using train_output_contract [of ?c3 ?w] r by simp
  ultimately show ?thesis by blast
qed

section \<open>The rate is positive in exact arithmetic\<close>

lemma nonlinearity_positive:
  assumes "dic_nonlinearities name = Some f"
  shows "0 < f u"
proof -
  have "f = (\<lambda>x. exp x) \<or> f = (\<lambda>x. ln (1 + exp x))"
    using assms by (auto simp: dic_nonlinearities_def split: if_splits)
  moreover have "0 < ln (1 + exp u)"
    by (rule ln_gt_zero) simp
  ultimately show ?thesis by auto
qed

section \<open>The rate in binary64 arithmetic\<close>

lemma pow2_powr: "pow2 e = 2 powr real_of_int e"
  by (simp add: pow2_def powr_int)

lemma pow2_pos: "0 < pow2 e"
  by (simp add: pow2_powr)

lemma pow2_add: "pow2 (a + b) = pow2 a * pow2 b"
  by (simp add: pow2_powr powr_add)

lemma pow2_mono: "a \<le> b \<Longrightarrow> pow2 a \<le> pow2 b"
  by (simp add: pow2_powr)

lemma pow2_nonneg_int: "0 \<le> e \<Longrightarrow> pow2 e = of_int (2 ^ nat e)"
  by (simp add: pow2_def)

lemma pow2_floor_log:
  assumes "0 < x"
  shows "pow2 \<lfloor>log 2 x\<rfloor> \<le> x"
proof -
  have "2 powr real_of_int \<lfloor>log 2 x\<rfloor> \<le> 2 powr log 2 x"
    by (intro powr_mono) simp_all
  then show ?thesis using assms by (simp add: pow2_powr)
qed

lemma floor_log_ge:
  assumes "0 < x" "pow2 k \<le> x"
  shows "k \<le> \<lfloor>log 2 x\<rfloor>"
proof -
  have "log 2 (pow2 k) \<le> log 2 x" using assms pow2_pos [of k] by simp
  then show ?thesis by (simp add: pow2_powr le_floor_iff)
qed

lemma floor_log_le:
  assumes "0 < x" "x \<le> pow2 k"
  shows "\<lfloor>log 2 x\<rfloor> \<le> k"
proof -
  have "log 2 x \<le> log 2 (pow2 k)" using assms pow2_pos [of k] by simp
  then have "log 2 x \<le> of_int k" by (simp add: pow2_powr)
  then show ?thesis by (simp add: floor_le_iff)
qed

lemma round_half_even_ge:
  assumes "of_int N \<le> z"
  shows "N \<le> round_half_even z"
proof -
  have "N \<le> \<lfloor>z\<rfloor>" using assms by (simp add: le_floor_iff)
  then show ?thesis by (simp add: round_half_even_def Let_def)
qed

lemma round_half_even_le:
  assumes "z \<le> of_int N"
  shows "round_half_even z \<le> N"
proof (cases "z = of_int N")
  case True
  then show ?thesis by (simp add: round_half_even_def)
next
  case False
  then have "z < of_int N" using assms by simp
  then have "\<lfloor>z\<rfloor> < N" by (simp add: floor_less_iff)
  then show ?thesis by (simp add: round_half_even_def Let_def)
qed

lemma round64_nonneg:
  assumes "0 \<le> x"
  shows "0 \<le> round64 x"
proof (cases "x = 0")
  case True
  then show ?thesis by (simp add: round64_def)
next
  case False
  have "of_int 0 \<le> x / pow2 (grid_exponent x)" using assms pow2_pos [of "grid_exponent x"] by simp
  then have "0 \<le> round_half_even (x / pow2 (grid_exponent x))" by (rule round_half_even_ge)
  then have "0 \<le> of_int (round_half_even (x / pow2 (grid_exponent x))) * pow2 (grid_exponent x)"
    using pow2_pos [of "grid_exponent x"] by simp
  then show ?thesis using False by (simp add: round64_def)
qed

lemma round64_ge_pow2:
  assumes k: "- 1074 \<le> k" and x: "pow2 k \<le> x"
  shows "pow2 k \<le> round64 x"
proof -
  have pos: "0 < x" using x pow2_pos [of k] by simp
  define n where "n = \<lfloor>log 2 x\<rfloor>"
  define e where "e = grid_exponent x"
  have kn: "k \<le> n" unfolding n_def using pos x by (rule floor_log_ge)
  have e_def': "e = max (n - 52) (- 1074)" using pos by (simp add: e_def grid_exponent_def n_def)
  have en: "e \<le> n" using kn k by (simp add: e_def')
  have "pow2 n \<le> x" unfolding n_def using pos by (rule pow2_floor_log)
  then have "pow2 (n - e) * pow2 e \<le> x" by (simp add: pow2_add [symmetric])
  then have "pow2 (n - e) \<le> x / pow2 e" using pow2_pos [of e] by (simp add: pos_le_divide_eq)
  then have "of_int (2 ^ nat (n - e)) \<le> x / pow2 e" using en by (simp add: pow2_nonneg_int)
  then have "2 ^ nat (n - e) \<le> round_half_even (x / pow2 e)" by (rule round_half_even_ge)
  then have "of_int (2 ^ nat (n - e)) * pow2 e \<le> of_int (round_half_even (x / pow2 e)) * pow2 e"
    using pow2_pos [of e] by (simp del: of_int_power)
  moreover have "of_int (2 ^ nat (n - e)) * pow2 e = pow2 n"
    using en pow2_add [of "n - e" e] by (simp add: pow2_nonneg_int)
  moreover have "round64 x = of_int (round_half_even (x / pow2 e)) * pow2 e"
    using pos by (simp add: round64_def e_def)
  ultimately have "pow2 n \<le> round64 x" by simp
  then show ?thesis using pow2_mono [OF kn] by simp
qed

lemma round64_le_pow2:
  assumes k: "- 1074 \<le> k" and pos: "0 < x" and x: "x \<le> pow2 k"
  shows "round64 x \<le> pow2 k"
proof -
  define e where "e = grid_exponent x"
  have "\<lfloor>log 2 x\<rfloor> \<le> k" using pos x by (rule floor_log_le)
  then have ek: "e \<le> k" using k pos by (simp add: e_def grid_exponent_def)
  have "x \<le> pow2 (k - e) * pow2 e" using x by (simp add: pow2_add [symmetric])
  then have "x / pow2 e \<le> pow2 (k - e)" using pow2_pos [of e] by (simp add: pos_divide_le_eq)
  then have "x / pow2 e \<le> of_int (2 ^ nat (k - e))" using ek by (simp add: pow2_nonneg_int)
  then have "round_half_even (x / pow2 e) \<le> 2 ^ nat (k - e)" by (rule round_half_even_le)
  then have "of_int (round_half_even (x / pow2 e)) * pow2 e \<le> of_int (2 ^ nat (k - e)) * pow2 e"
    using pow2_pos [of e] by (simp del: of_int_power)
  moreover have "of_int (2 ^ nat (k - e)) * pow2 e = pow2 k"
    using ek pow2_add [of "k - e" e] by (simp add: pow2_nonneg_int)
  moreover have "round64 x = of_int (round_half_even (x / pow2 e)) * pow2 e"
    using pos by (simp add: round64_def e_def)
  ultimately show ?thesis by simp
qed

text \<open>A positive value of at most a quarter of the smallest positive number rounds to 0.\<close>

lemma round64_underflow:
  assumes pos: "0 < x" and x: "x \<le> pow2 (- 1076)"
  shows "round64 x = 0"
proof -
  define n where "n = \<lfloor>log 2 x\<rfloor>"
  have "n \<le> - 1076" unfolding n_def using pos x by (rule floor_log_le)
  then have "max (n - 52) (- 1074) = - 1074" by simp
  moreover have "grid_exponent x = max (n - 52) (- 1074)" using pos by (simp add: grid_exponent_def n_def)
  ultimately have e: "grid_exponent x = - 1074" by (simp only:)
  define z where "z = x / pow2 (- 1074)"
  have "x \<le> pow2 (- 2) * pow2 (- 1074)" using x by (simp add: pow2_add [symmetric])
  then have "z \<le> pow2 (- 2)" unfolding z_def using pow2_pos [of "- 1074"]
    by (simp add: pos_divide_le_eq)
  then have zq: "z \<le> 1 / 4" by (simp add: pow2_def)
  have z0: "0 < z" unfolding z_def using pos pow2_pos [of "- 1074"] by simp
  have "\<lfloor>z\<rfloor> = 0" using z0 zq by (intro floor_unique) simp_all
  then have "round_half_even z = 0" using zq by (simp add: round_half_even_def)
  then show ?thesis using pos by (simp add: round64_def e z_def)
qed

text \<open>Adding at most a quarter of the spacing at 1 gives 1 again.\<close>

lemma round64_one_plus_tiny:
  assumes e0: "0 \<le> e" and e: "e \<le> pow2 (- 54)"
  shows "round64 (1 + e) = 1"
proof -
  have e_small: "e \<le> 1 / 2 ^ 54" using e by (simp add: pow2_def)
  have "(1::real) / 2 ^ 54 < 1" by simp
  then have lt2: "1 + e < 2" using e_small by linarith
  have "\<lfloor>log 2 (1 + e)\<rfloor> = 0"
  proof (rule floor_unique)
    show "of_int 0 \<le> log 2 (1 + e)" using e0 by simp
    have "log 2 (1 + e) < log 2 2" using e0 lt2 by (subst log_less_cancel_iff) simp_all
    then show "log 2 (1 + e) < of_int 0 + 1" by simp
  qed
  then have sp: "grid_exponent (1 + e) = - 52" using e0 by (simp add: grid_exponent_def)
  define z where "z = (1 + e) / pow2 (- 52)"
  have z: "z = 2 ^ 52 + e * 2 ^ 52" by (simp add: z_def pow2_def field_simps)
  have "e * 2 ^ 52 \<le> 1 / 2 ^ 54 * 2 ^ 52" using e_small by (intro mult_right_mono) simp_all
  then have frac: "e * 2 ^ 52 \<le> 1 / 4" by simp
  have frac0: "0 \<le> e * 2 ^ 52" using e0 by simp
  have fl: "\<lfloor>z\<rfloor> = 2 ^ 52"
  proof (rule floor_unique)
    show "of_int (2 ^ 52) \<le> z" using frac0 by (simp add: z)
    show "z < of_int (2 ^ 52) + 1" using frac by (simp add: z)
  qed
  have "z - of_int \<lfloor>z\<rfloor> = e * 2 ^ 52" unfolding fl by (simp add: z)
  then have "z - of_int \<lfloor>z\<rfloor> < 1 / 2" using frac by linarith
  then have "round_half_even z = \<lfloor>z\<rfloor>" by (simp only: round_half_even_def Let_def if_True)
  then have "round_half_even z = 2 ^ 52" by (simp only: fl)
  moreover have "1 + e \<noteq> 0" using e0 by simp
  ultimately have "round64 (1 + e) = of_int (2 ^ 52) * pow2 (- 52)"
    by (simp add: round64_def sp z_def del: of_int_power)
  then show ?thesis by (simp add: pow2_def)
qed

text \<open>A value at least one spacing above 1 stays at least one spacing above 1.\<close>

lemma round64_ge_one_plus_spacing:
  assumes x: "1 + pow2 (- 52) \<le> x"
  shows "1 + pow2 (- 52) \<le> round64 x"
proof (cases "x < 2")
  case True
  have x1: "1 \<le> x" using x pow2_pos [of "- 52"] by linarith
  have "\<lfloor>log 2 x\<rfloor> = 0"
  proof (rule floor_unique)
    show "of_int 0 \<le> log 2 x" using x1 by simp
    have "log 2 x < log 2 2" using x1 True by (subst log_less_cancel_iff) simp_all
    then show "log 2 x < of_int 0 + 1" by simp
  qed
  then have sp: "grid_exponent x = - 52" using x1 by (simp add: grid_exponent_def)
  have "(1 + pow2 (- 52)) / pow2 (- 52) \<le> x / pow2 (- 52)"
    using x pow2_pos [of "- 52"] by (simp add: divide_right_mono)
  moreover have "(1 + pow2 (- 52)) / pow2 (- 52) = of_int (2 ^ 52 + 1)"
    by (simp add: pow2_def field_simps)
  ultimately have "of_int (2 ^ 52 + 1) \<le> x / pow2 (- 52)" by (simp only:)
  then have "2 ^ 52 + 1 \<le> round_half_even (x / pow2 (- 52))" by (rule round_half_even_ge)
  then have "of_int (2 ^ 52 + 1) * pow2 (- 52)
      \<le> of_int (round_half_even (x / pow2 (- 52))) * pow2 (- 52)"
    using pow2_pos [of "- 52"] by (simp del: of_int_power of_int_add)
  moreover have "of_int (2 ^ 52 + 1) * pow2 (- 52) = 1 + pow2 (- 52)"
    by (simp add: pow2_def field_simps)
  ultimately have "1 + pow2 (- 52) \<le> of_int (round_half_even (x / pow2 (- 52))) * pow2 (- 52)"
    by (simp only:)
  moreover have "round64 x = of_int (round_half_even (x / pow2 (- 52))) * pow2 (- 52)"
    using x1 by (simp add: round64_def sp)
  ultimately show ?thesis by (simp only:)
next
  case False
  then have "pow2 1 \<le> x" by (simp add: pow2_def)
  then have "pow2 1 \<le> round64 x" by (intro round64_ge_pow2) simp_all
  moreover have "1 + pow2 (- 52) \<le> pow2 1" by (simp add: pow2_def)
  ultimately show ?thesis by linarith
qed

lemma ln_2_upper: "ln (2::real) \<le> 37 / 50"
proof -
  have "1 + 37 / 50 + (37 / 50)\<^sup>2 / 2 \<le> exp (37 / 50 :: real)"
    by (rule exp_lower_Taylor_quadratic) simp
  then have "2 \<le> exp (37 / 50 :: real)" by (simp add: power2_eq_square)
  then have "ln 2 \<le> ln (exp (37 / 50 :: real))" by (subst ln_le_cancel_iff) simp_all
  then show ?thesis by simp
qed

lemma exp_le_pow2:
  assumes "u \<le> - (37 / 50) * real_of_int k" "0 \<le> k"
  shows "exp u \<le> pow2 (- k)"
proof -
  have "real_of_int k * ln 2 \<le> real_of_int k * (37 / 50)"
    using assms(2) ln_2_upper by (intro mult_left_mono) simp_all
  then have "u \<le> real_of_int (- k) * ln 2" using assms(1) by simp
  then have "exp u \<le> exp (real_of_int (- k) * ln 2)" by simp
  then show ?thesis by (simp add: pow2_powr powr_def)
qed

lemma exp_f64_underflow: "exp_f64 (- 800) = Some 0"
proof -
  have "exp (- 800 :: real) \<le> pow2 (- 1076)" by (rule exp_le_pow2) simp_all
  then have "round64 (exp (- 800)) = 0" by (intro round64_underflow) simp_all
  then show ?thesis by (simp add: exp_f64_def f64_def)
qed

lemma log_exp_f64_underflow: "log_exp_f64 (- 40) = Some 0"
proof -
  define e where "e = round64 (exp (- 40))"
  have x: "exp (- 40 :: real) \<le> pow2 (- 54)" by (rule exp_le_pow2) simp_all
  have e0: "0 \<le> e" unfolding e_def by (rule round64_nonneg) simp
  have e54: "e \<le> pow2 (- 54)" unfolding e_def using x by (intro round64_le_pow2) simp_all
  have "pow2 (- 54) < 2 ^ 1024" by (simp add: pow2_def)
  then have a: "exp_f64 (- 40) = Some e"
    using e0 e54 by (simp add: exp_f64_def f64_def e_def)
  have b: "f64 (1 + e) = Some 1"
    using round64_one_plus_tiny [OF e0 e54] by (simp add: f64_def)
  have c: "log_f64 1 = Some 0" by (simp add: log_f64_def f64_def round64_def)
  show ?thesis by (simp add: log_exp_f64_def a b c)
qed

lemma f64_SomeD: "f64 x = Some y \<Longrightarrow> y = round64 x"
  by (simp add: f64_def split: if_splits)

lemma f64_bounded:
  assumes "0 \<le> round64 x" "round64 x \<le> pow2 1023"
  shows "f64 x = Some (round64 x)"
proof -
  have "pow2 1023 < 2 ^ 1024" by (simp add: pow2_def)
  then have "\<bar>round64 x\<bar> < 2 ^ 1024" using assms by linarith
  then show ?thesis by (simp add: f64_def)
qed

lemma round64_zero: "round64 0 = 0"
  by (simp add: round64_def)

lemma exp_f64_nonneg:
  assumes "exp_f64 u = Some r"
  shows "0 \<le> r"
  using assms round64_nonneg [of "exp u"] by (auto simp: exp_f64_def dest!: f64_SomeD)

lemma exp_f64_pos:
  assumes "pow2 (- 1074) \<le> exp u" "exp_f64 u = Some r"
  shows "0 < r"
proof -
  have "pow2 (- 1074) \<le> round64 (exp u)" using assms(1) by (intro round64_ge_pow2) simp_all
  moreover have "r = round64 (exp u)" using assms(2) by (auto simp: exp_f64_def dest: f64_SomeD)
  ultimately show ?thesis using pow2_pos [of "- 1074"] by linarith
qed

lemma exp_f64_finite:
  assumes "exp u \<le> pow2 1022"
  shows "\<exists>r. exp_f64 u = Some r"
proof -
  have "round64 (exp u) \<le> pow2 1022" using assms by (intro round64_le_pow2) simp_all
  moreover have "pow2 1022 \<le> pow2 1023" by (rule pow2_mono) simp
  moreover have "0 \<le> round64 (exp u)" by (rule round64_nonneg) simp
  ultimately show ?thesis using f64_bounded [of "exp u"] by (simp add: exp_f64_def)
qed

lemma log_exp_f64_SomeD:
  assumes "log_exp_f64 u = Some r"
  obtains e s where "exp_f64 u = Some e" "f64 (1 + e) = Some s" "0 < s" "f64 (ln s) = Some r"
  using assms by (auto simp: log_exp_f64_def log_f64_def split: option.splits if_splits)

lemma log_exp_f64_nonneg:
  assumes "log_exp_f64 u = Some r"
  shows "0 \<le> r"
proof -
  from assms obtain e s where e: "exp_f64 u = Some e" and s: "f64 (1 + e) = Some s"
    and r: "f64 (ln s) = Some r" by (rule log_exp_f64_SomeD)
  have "0 \<le> e" using e by (rule exp_f64_nonneg)
  then have "pow2 0 \<le> 1 + e" by (simp add: pow2_def)
  then have "pow2 0 \<le> round64 (1 + e)" by (intro round64_ge_pow2) simp_all
  then have "1 \<le> s" using f64_SomeD [OF s] by (simp add: pow2_def)
  then have "0 \<le> ln s" by simp
  then have "0 \<le> round64 (ln s)" by (rule round64_nonneg)
  then show ?thesis using f64_SomeD [OF r] by simp
qed

lemma log_exp_f64_pos:
  assumes big: "pow2 (- 52) \<le> exp u" and "log_exp_f64 u = Some r"
  shows "0 < r"
proof -
  from assms(2) obtain e s where e: "exp_f64 u = Some e" and s: "f64 (1 + e) = Some s"
    and r: "f64 (ln s) = Some r" by (rule log_exp_f64_SomeD)
  let ?p = "pow2 (- 52)"
  have p: "?p = 1 / 2 ^ 52" by (simp add: pow2_def)
  have "?p \<le> round64 (exp u)" using big by (intro round64_ge_pow2) simp_all
  then have "?p \<le> e" using e by (auto simp: exp_f64_def dest: f64_SomeD)
  then have "1 + ?p \<le> 1 + e" by simp
  then have "1 + ?p \<le> round64 (1 + e)" by (rule round64_ge_one_plus_spacing)
  then have s1: "1 + ?p \<le> s" using f64_SomeD [OF s] by simp
  have "?p - ?p\<^sup>2 \<le> ln (1 + ?p)"
    by (rule ln_one_plus_pos_lower_bound) (simp_all add: p)
  moreover have "ln (1 + ?p) \<le> ln s"
    using s1 pow2_pos [of "- 52"] by (subst ln_le_cancel_iff) simp_all
  moreover have "pow2 (- 53) \<le> ?p - ?p\<^sup>2"
    by (simp add: pow2_def power2_eq_square)
  ultimately have "pow2 (- 53) \<le> ln s" by linarith
  then have "pow2 (- 53) \<le> round64 (ln s)" by (intro round64_ge_pow2) simp_all
  then show ?thesis using f64_SomeD [OF r] pow2_pos [of "- 53"] by linarith
qed

lemma log_exp_f64_finite:
  assumes "exp u \<le> pow2 1022"
  shows "\<exists>r. log_exp_f64 u = Some r"
proof -
  define e where "e = round64 (exp u)"
  define s where "s = round64 (1 + e)"
  have e0: "0 \<le> e" unfolding e_def by (rule round64_nonneg) simp
  have e1: "e \<le> pow2 1022" unfolding e_def using assms by (intro round64_le_pow2) simp_all
  have m: "pow2 1022 \<le> pow2 1023" by (rule pow2_mono) simp
  have a: "exp_f64 u = Some e"
    unfolding exp_f64_def e_def using e0 e1 m
    by (intro f64_bounded) (simp_all add: e_def)
  have "1 \<le> pow2 1022" using pow2_mono [of 0 1022] by (simp add: pow2_def)
  moreover have "pow2 1023 = pow2 1022 + pow2 1022"
    using pow2_add [of 1022 1] by (simp add: pow2_def)
  ultimately have x1: "1 + e \<le> pow2 1023" using e1 by linarith
  have "pow2 0 \<le> 1 + e" using e0 by (simp add: pow2_def)
  then have "pow2 0 \<le> s" unfolding s_def by (intro round64_ge_pow2) simp_all
  then have s1: "1 \<le> s" by (simp add: pow2_def)
  have s2: "s \<le> pow2 1023" unfolding s_def using x1 e0 by (intro round64_le_pow2) simp_all
  have b: "f64 (1 + e) = Some s"
    unfolding s_def using s1 s2 by (intro f64_bounded) (simp_all add: s_def)
  have l0: "0 \<le> ln s" using s1 by simp
  have "ln s \<le> s - 1" using s1 by (intro ln_le_minus_one) simp
  then have l1: "ln s \<le> pow2 1023" using s2 by linarith
  have "round64 (ln s) \<le> pow2 1023"
  proof (cases "ln s = 0")
    case True
    then show ?thesis using pow2_pos [of 1023] by (simp add: round64_zero)
  next
    case False
    then show ?thesis using l0 l1 by (intro round64_le_pow2) simp_all
  qed
  moreover have "0 \<le> round64 (ln s)" using l0 by (rule round64_nonneg)
  ultimately have c: "f64 (ln s) = Some (round64 (ln s))" by (intro f64_bounded)
  have "0 < s" using s1 by simp
  then show ?thesis by (simp add: log_exp_f64_def log_f64_def a b c)
qed

text \<open>
  Claim C8 fails as stated on the numbers the code computes with: where \<^verbatim>\<open>torch.exp\<close>
  underflows the rate is exactly 0.  For \<^verbatim>\<open>'exp'\<close> this happens at \<open>u = - 800\<close>, where
  \<open>exp u\<close> is below a quarter of the smallest positive binary64 number; for \<^verbatim>\<open>'log_exp'\<close>
  already at \<open>u = - 40\<close>, where \<open>1 + exp u\<close> rounds to 1 and its logarithm is 0.
\<close>

theorem rate_zero_by_underflow:
  "dic_nonlinearities_f64 ''exp'' = Some exp_f64
   \<and> exp_f64 (- 800) = Some 0
   \<and> dic_nonlinearities_f64 ''log_exp'' = Some log_exp_f64
   \<and> log_exp_f64 (- 40) = Some 0
   \<and> rate_of_u exp_f64 [[- 800]] = [[Some 0]]
   \<and> rate_of_u log_exp_f64 [[- 40]] = [[Some 0]]"
  by (simp add: dic_nonlinearities_f64_def exp_f64_underflow log_exp_f64_underflow rate_of_u_def)

text \<open>
  Claim C8, amended.  For every real input \<open>u\<close> the rate that the configured
  nonlinearity produces is non-negative: a finite rate is never below 0, and so is no
  entry of the rate array of line 47.  The rate is finite whenever \<open>exp u \<le> 2 ^ 1022\<close>;
  it is strictly positive whenever \<open>exp u\<close> is at least the smallest positive binary64
  number \<open>2 ^ - 1074\<close> (for \<^verbatim>\<open>'exp'\<close>) or at least the spacing \<open>2 ^ - 52\<close> of the numbers at
  1 (for \<^verbatim>\<open>'log_exp'\<close>).  In exact real arithmetic it is strictly positive for every \<open>u\<close>.
\<close>

theorem rate_nonnegative_in_binary64:
  assumes "dic_nonlinearities_f64 name = Some f"
  shows "(\<forall>r. f u = Some r \<longrightarrow> 0 \<le> r)
         \<and> (exp u \<le> pow2 1022 \<longrightarrow> (\<exists>r. f u = Some r))
         \<and> (name = ''exp'' \<and> pow2 (- 1074) \<le> exp u \<longrightarrow> (\<forall>r. f u = Some r \<longrightarrow> 0 < r))
         \<and> (name = ''log_exp'' \<and> pow2 (- 52) \<le> exp u \<longrightarrow> (\<forall>r. f u = Some r \<longrightarrow> 0 < r))
         \<and> list_all (list_all (\<lambda>v. \<forall>r. v = Some r \<longrightarrow> 0 \<le> r)) (rate_of_u f U)
         \<and> (\<forall>g. dic_nonlinearities name = Some g \<longrightarrow> 0 < g u)"
proof -
  have cases: "name = ''exp'' \<and> f = exp_f64 \<or> name = ''log_exp'' \<and> f = log_exp_f64"
    using assms by (auto simp: dic_nonlinearities_f64_def split: if_splits)
  have nonneg: "0 \<le> r" if "f v = Some r" for v r
    using cases that exp_f64_nonneg log_exp_f64_nonneg by blast
  have finite: "\<exists>r. f u = Some r" if "exp u \<le> pow2 1022"
    using cases that exp_f64_finite log_exp_f64_finite by blast
  have pos_exp: "0 < r" if "name = ''exp''" "pow2 (- 1074) \<le> exp u" "f u = Some r" for r
    using cases that exp_f64_pos by auto
  have pos_log_exp: "0 < r" if "name = ''log_exp''" "pow2 (- 52) \<le> exp u" "f u = Some r" for r
    using cases that log_exp_f64_pos by auto
  have tensor: "list_all (list_all (\<lambda>v. \<forall>r. v = Some r \<longrightarrow> 0 \<le> r)) (rate_of_u f U)"
    using nonneg by (auto simp: rate_of_u_def list_all_iff)
  have exact: "0 < g u" if "dic_nonlinearities name = Some g" for g
    using that by (rule nonlinearity_positive)
  show ?thesis using nonneg finite pos_exp pos_log_exp tensor exact by blast
qed

theorem rate_nonnegative_in_binary64_witness:
  "exp_f64 0 = Some 1 \<and> (\<exists>r. log_exp_f64 0 = Some r \<and> 0 < r)"
proof -
  have k1: "dic_nonlinearities_f64 ''exp'' = Some exp_f64"
    and k2: "dic_nonlinearities_f64 ''log_exp'' = Some log_exp_f64"
    by (simp_all add: dic_nonlinearities_f64_def)
  have small: "exp (0::real) \<le> pow2 1022" using pow2_mono [of 0 1022] by (simp add: pow2_def)
  have big: "pow2 (- 52) \<le> exp (0::real)" by (simp add: pow2_def)
  have "exp_f64 0 = Some 1"
    by (simp add: exp_f64_def f64_def round64_def grid_exponent_def round_half_even_def pow2_def)
  moreover obtain r where r: "log_exp_f64 0 = Some r"
    using rate_nonnegative_in_binary64 [OF k2, of 0] small by blast
  moreover have "0 < r"
    using rate_nonnegative_in_binary64 [OF k2, of 0] big r by simp
  ultimately show ?thesis by blast
qed

section \<open>The negative log-likelihood in closed form\<close>





lemma bcast_same_length:
  assumes "length xs = length ys"
  shows "bcast f xs ys = Some (map2 f xs ys)"
  using assms by (simp add: bcast_def)

lemma those_map2_bcast:
  assumes "list_all2 (\<lambda>a b. length a = length b) A B"
  shows "those (map2 (bcast f) A B) = Some (map2 (map2 f) A B)"
  using assms by (induction rule: list_all2_induct) (simp_all add: bcast_same_length)

lemma bcast2_same_shape:
  assumes "list_all2 (\<lambda>a b. length a = length b) A B"
  shows "bcast2 f A B = Inr (map2 (map2 f) A B)"
proof -
  have "length A = length B" using assms by (rule list_all2_lengthD)
  then show ?thesis
    by (simp add: bcast2_def bcast_same_length those_map2_bcast [OF assms])
qed










section \<open>The guard inside the logarithm\<close>

lemma those_None:
  assumes "None \<in> set xs"
  shows "those xs = None"
  using assms by (induction xs) (auto split: option.splits)

lemma map2_map2_rows_finite:
  assumes "\<And>a r m. a \<in> set A \<Longrightarrow> r \<in> set a \<Longrightarrow> F r m = Some (G r m)"
  shows "map2 (map2 F) A B = map (map Some) (map2 (map2 G) A B)"
proof -
  have row: "map2 F a b = map Some (map2 G a b)" if "a \<in> set A" for a b
    using assms [OF that] by (auto dest: set_zip_leftD)
  have "map2 (map2 F) A B = map2 (\<lambda>a b. map Some (map2 G a b)) A B"
    using row by (auto dest: set_zip_leftD)
  also have "\<dots> = map (map Some) (map2 (map2 G) A B)"
    by (simp add: o_def split_def)
  finally show ?thesis .
qed

lemma foldl_plus_t_finite:
  "foldl (map2 plus_t) (map Some acc) (map (map Some) rows) = map Some (foldl (map2 (+)) acc rows)"
proof (induction rows arbitrary: acc)
  case Nil
  show ?case by simp
next
  case (Cons row rows)
  have "map2 plus_t (map Some acc) (map Some row) = map Some (map2 (+) acc row)"
    by (simp add: zip_map_map plus_t_def o_def split_def)
  then show ?case using Cons.IH [of "map2 (+) acc row"] by simp
qed

lemma sum0_t_finite: "sum0_t (map (map Some) M) = map Some (sum0 M)"
  by (cases M) (simp_all add: sum0_t_def sum0_def foldl_plus_t_finite)

lemma length_foldl_map2:
  assumes "length acc = length acc'" "map length rows = map length rows'"
  shows "length (foldl (map2 f) acc rows) = length (foldl (map2 f') acc' rows')"
  using assms
proof (induction rows arbitrary: acc acc' rows')
  case Nil
  then show ?case by simp
next
  case (Cons row rows)
  then obtain row' rest' where r': "rows' = row' # rest'" "length row = length row'"
    "map length rows = map length rest'" by (cases rows') auto
  have "length (map2 f acc row) = length (map2 f' acc' row')"
    using Cons.prems(1) r'(2) by simp
  from Cons.IH [OF this r'(3)] show ?case by (simp add: r'(1))
qed

lemma length_sum0_shape:
  assumes "map length M = map length M'"
  shows "length (sum0 M) = length (sum0 M')"
proof (cases M)
  case Nil
  then show ?thesis using assms by (simp add: sum0_def)
next
  case (Cons row rows)
  then obtain row' rows' where "M' = row' # rows'" "length row = length row'"
    "map length rows = map length rows'" using assms by (cases M') auto
  then show ?thesis using Cons length_foldl_map2 [of row row' rows rows' "(+)" "(+)"]
    by (simp add: sum0_def)
qed

lemma map_length_map2_map2: "map length (map2 (map2 g) A B) = map length (map2 (map2 h) A B)"
  by (simp add: o_def split_def)

lemma bcast_finite_minus:
  assumes "length xs = length ys"
  shows "bcast (\<lambda>a b. map_option (\<lambda>s. s - dt * b) a) (map Some xs) ys
           = Some (map Some (map2 (\<lambda>a b. a - dt * b) xs ys))"
  using assms by (simp add: bcast_def zip_map1 o_def split_def)

lemma log_proba_guarded:
  assumes shape: "list_all2 (\<lambda>a b. length a = length b) r_fr mask_spikes_fr"
    and dt: "0 \<le> dt"
    and nonneg: "\<And>a r. a \<in> set r_fr \<Longrightarrow> r \<in> set a \<Longrightarrow> 0 \<le> r"
  shows "\<exists>lp. log_proba dt r_fr mask_spikes_fr = Inr (map Some lp)"
proof -
  let ?F = "\<lambda>r m. times_t (log_t (1 - exp (- dt * r) + 1 / 10 ^ 24)) m"
  let ?G = "\<lambda>r m. ln (1 - exp (- dt * r) + 1 / 10 ^ 24) * m"
  let ?H = "\<lambda>r m::real. r * (1 - m)"
  let ?spiking = "map2 (map2 ?G) r_fr mask_spikes_fr"
  let ?silent = "map2 (map2 ?H) r_fr mask_spikes_fr"
  have FG: "?F r m = Some (?G r m)" if "a \<in> set r_fr" "r \<in> set a" for a r m
  proof -
    have "0 \<le> dt * r" using dt nonneg [OF that] by simp
    then have "exp (- dt * r) \<le> 1" by simp
    then have e: "0 \<le> 1 - exp (- dt * r)" by simp
    have p: "(0::real) < 1 / 10 ^ 24" by simp
    have "0 < 1 - exp (- dt * r) + 1 / 10 ^ 24" by (rule add_nonneg_pos [OF e p])
    then show ?thesis by (simp only: log_t_def times_t_def if_True option.map)
  qed
  have 1: "bcast2 ?F r_fr mask_spikes_fr = Inr (map (map Some) ?spiking)"
    using bcast2_same_shape [OF shape, of ?F] map2_map2_rows_finite [of r_fr ?F ?G mask_spikes_fr] FG
    by simp
  have 2: "bcast2 ?H r_fr mask_spikes_fr = Inr ?silent"
    by (rule bcast2_same_shape [OF shape])
  have len: "length (map Some (sum0 ?spiking)) = length (sum0 ?silent)"
    using length_sum0_shape [OF map_length_map2_map2 [of ?G r_fr mask_spikes_fr ?H]] by simp
  have 3: "bcast (\<lambda>a b. map_option (\<lambda>s. s - dt * b) a) (map Some (sum0 ?spiking)) (sum0 ?silent)
        = Some (map Some (map2 (\<lambda>a b. a - dt * b) (sum0 ?spiking) (sum0 ?silent)))"
    using len by (intro bcast_finite_minus) simp
  have "log_proba dt r_fr mask_spikes_fr
      = Inr (map Some (map2 (\<lambda>a b. a - dt * b) (sum0 ?spiking) (sum0 ?silent)))"
    unfolding log_proba_def
    by (simp only: 1 2 3 sum0_t_finite sum.case option.case)
  then show ?thesis by blast
qed

lemma nll_zero_rate:
  assumes shape: "list_all2 (\<lambda>a b. length a = length b) r_dc mask_spikes"
    and bin: "t < length r_dc" "k < length (r_dc ! t)" "r_dc ! t ! k = 0"
  shows "nll_of_rate dt r_dc mask_spikes = Inr None"
proof -
  let ?F = "\<lambda>r m. times_t (log_t (1 - exp (- dt * r))) m"
  have lens: "length r_dc = length mask_spikes" "length (r_dc ! t) = length (mask_spikes ! t)"
    using shape bin(1) by (simp_all add: list_all2_conv_all_nth)
  have "(r_dc ! t, mask_spikes ! t) \<in> set (zip r_dc mask_spikes)"
    using bin(1) lens(1) by (auto simp: set_zip)
  moreover have "(r_dc ! t ! k, mask_spikes ! t ! k) \<in> set (zip (r_dc ! t) (mask_spikes ! t))"
    using bin(2) lens(2) by (auto simp: set_zip)
  moreover have "?F (r_dc ! t ! k) (mask_spikes ! t ! k) = None"
    by (simp add: bin(3) log_t_def times_t_def)
  ultimately have "None \<in> set (concat (map2 (map2 ?F) r_dc mask_spikes))"
    by (force simp: image_iff)
  then have "sum_t (concat (map2 (map2 ?F) r_dc mask_spikes)) = None"
    by (simp add: sum_t_def those_None)
  then show ?thesis
    unfolding nll_of_rate_def
    by (simp only: bcast2_same_shape [OF shape] sum.case option.map)
qed

text \<open>
  Claim C9.  The logarithm of lines 68 and 69 has no guard: whenever a bin has rate 0
  its argument \<open>1 - exp 0\<close> is 0 and the negative log-likelihood is not a finite number.
  The logarithm of lines 127 and 128 has \<open>1e-24\<close> added to its argument: on the same rate
  and mask (no rate negative, \<open>dt \<ge> 0\<close>) every entry of \<^verbatim>\<open>log_proba\<close> is finite.
\<close>

theorem nll_unguarded_log_proba_guarded:
  assumes "list_all2 (\<lambda>a b. length a = length b) r mask_spikes"
    and "0 \<le> dt" and "list_all (list_all (\<lambda>x. 0 \<le> x)) r"
    and "t < length r" and "k < length (r ! t)" and "r ! t ! k = 0"
  shows "nll_of_rate dt r mask_spikes = Inr None
         \<and> (\<exists>lp. log_proba dt r mask_spikes = Inr lp \<and> list_all (\<lambda>v. v \<noteq> None) lp)"
proof -
  have "0 \<le> x" if "a \<in> set r" "x \<in> set a" for a x
    using assms(3) that by (auto simp: list_all_iff)
  then obtain lp where "log_proba dt r mask_spikes = Inr (map Some lp)"
    using log_proba_guarded [OF assms(1,2)] by blast
  moreover have "list_all (\<lambda>v. v \<noteq> None) (map Some lp)" by (simp add: list_all_iff)
  ultimately show ?thesis using nll_zero_rate [OF assms(1,4,5,6)] by blast
qed

theorem nll_unguarded_log_proba_guarded_witness:
  "nll_of_rate 1 [[0]] [[1]] = Inr None \<and> log_proba 1 [[0]] [[1]] = Inr [Some (ln (1 / 10 ^ 24))]"
proof -
  have "nll_of_rate 1 [[0]] [[1]] = Inr None"
    using nll_unguarded_log_proba_guarded [of "[[0]]" "[[1]]" 1 0 0] by simp
  moreover have "log_proba 1 [[0]] [[1]] = Inr [Some (ln (1 / 10 ^ 24))]"
    by (simp add: log_proba_def bcast2_def bcast_def log_t_def times_t_def sum0_def sum0_t_def)
  ultimately show ?thesis by simp
qed

section \<open>The denominator of the unbiased surrogate\<close>

lemma unbiased_denom_zero_iff: "unbiased_denom n = 0 \<longleftrightarrow> n \<le> 1"
  by (auto simp: unbiased_denom_def)

lemma phi_surrogate_not_finite:
  assumes "n_batch_fr \<le> 1"
  shows "mmd_surr_phi_unbiased n_d n_batch_fr lp phi_fr sum_phi_d \<noteq> Inr (Some v)"
proof -
  have "norm2_fr a b n_batch_fr = None" for a b
    using assms by (simp add: norm2_fr_def div_t_def unbiased_denom_zero_iff)
  then show ?thesis
    by (simp add: mmd_surr_phi_unbiased_def split: sum.splits option.splits)
qed

lemma kernel_surrogate_not_finite:
  assumes "n_batch_fr \<le> 1"
  shows "mmd_surr_kernel_unbiased n_batch_fr lp G Gd \<noteq> Inr (Some v)"
proof -
  have "kernel_norm2_fr a n_batch_fr = None" for a
    using assms by (simp add: kernel_norm2_fr_def div_t_def unbiased_denom_zero_iff)
  then show ?thesis
    by (simp add: mmd_surr_kernel_unbiased_def split: sum.splits option.splits)
qed

text \<open>
  Claim C6.  With \<open>n_batch_fr \<le> 1\<close> the denominator \<open>n_batch_fr * (n_batch_fr - 1)\<close> is 0,
  the two quotients by it are not finite, and nothing in either mode of the unbiased
  surrogate turns that into a finite value: the surrogate is not finite or an exception
  is raised.  With \<open>n_batch_fr \<ge> 2\<close> the denominator is not 0 and both quotients are the
  finite quotients.
\<close>

theorem unbiased_denominator:
  "(n_batch_fr \<le> 1 \<longrightarrow>
      unbiased_denom n_batch_fr = 0
      \<and> norm2_fr a b n_batch_fr = None
      \<and> kernel_norm2_fr g n_batch_fr = None
      \<and> (\<forall>v. mmd_surr_phi_unbiased n_d n_batch_fr lp phi_fr sum_phi_d \<noteq> Inr (Some v))
      \<and> (\<forall>v. mmd_surr_kernel_unbiased n_batch_fr lp gramian_fr_fr gramian_d_fr \<noteq> Inr (Some v)))
   \<and> (2 \<le> n_batch_fr \<longrightarrow>
      unbiased_denom n_batch_fr \<noteq> 0
      \<and> norm2_fr a b n_batch_fr = Some ((a - b) / real_of_int (unbiased_denom n_batch_fr))
      \<and> kernel_norm2_fr g n_batch_fr = Some (2 * g / real_of_int (unbiased_denom n_batch_fr)))"
proof (intro conjI impI)
  assume le: "n_batch_fr \<le> 1"
  show "unbiased_denom n_batch_fr = 0" using le by (simp add: unbiased_denom_zero_iff)
  show "norm2_fr a b n_batch_fr = None"
    using le by (simp add: norm2_fr_def div_t_def unbiased_denom_zero_iff)
  show "kernel_norm2_fr g n_batch_fr = None"
    using le by (simp add: kernel_norm2_fr_def div_t_def unbiased_denom_zero_iff)
  show "\<forall>v. mmd_surr_phi_unbiased n_d n_batch_fr lp phi_fr sum_phi_d \<noteq> Inr (Some v)"
    using le by (simp add: phi_surrogate_not_finite)
  show "\<forall>v. mmd_surr_kernel_unbiased n_batch_fr lp gramian_fr_fr gramian_d_fr \<noteq> Inr (Some v)"
    using le by (simp add: kernel_surrogate_not_finite)
next
  assume ge: "2 \<le> n_batch_fr"
  then show nz: "unbiased_denom n_batch_fr \<noteq> 0" by (simp add: unbiased_denom_zero_iff)
  show "norm2_fr a b n_batch_fr = Some ((a - b) / real_of_int (unbiased_denom n_batch_fr))"
    using nz by (simp add: norm2_fr_def div_t_def)
  show "kernel_norm2_fr g n_batch_fr = Some (2 * g / real_of_int (unbiased_denom n_batch_fr))"
    using nz by (simp add: kernel_norm2_fr_def div_t_def)
qed

theorem unbiased_denominator_witness:
  "unbiased_denom 1 = 0
   \<and> mmd_surr_phi_unbiased 2 1 [3] [[1], [2]] [1, 1] = Inr None
   \<and> mmd_surr_kernel_unbiased 1 [3] [[1]] [[1], [2]] = Inr None
   \<and> unbiased_denom 2 = 2
   \<and> norm2_fr 24 16 2 = Some 4
   \<and> kernel_norm2_fr 8 2 = Some 8"
proof -
  have one: "(1::nat) \<le> 1" and two: "(2::nat) \<le> 2" by simp_all
  have "unbiased_denom 1 = 0"
    using unbiased_denominator [of 1 0 0 0 2 "[3]" "[[1], [2]]" "[1, 1]" "[[1]]" "[[1], [2]]"] one
    by blast
  moreover have "unbiased_denom 2 \<noteq> 0"
    and "norm2_fr 24 16 2 = Some ((24 - 16) / real_of_int (unbiased_denom 2))"
    and "kernel_norm2_fr 8 2 = Some (2 * 8 / real_of_int (unbiased_denom 2))"
    using unbiased_denominator [of 2 24 16 8 2 "[3]" "[[1], [2]]" "[1, 1]" "[[1]]" "[[1], [2]]"] two
    by blast+
  moreover have "unbiased_denom 2 = 2" by (simp add: unbiased_denom_def)
  moreover have "mmd_surr_phi_unbiased 2 1 [3] [[1], [2]] [1, 1] = Inr None"
    by (simp add: mmd_surr_phi_unbiased_def bcast2_def bcast_def norm2_fr_def div_t_def
        unbiased_denom_def)
  moreover have "mmd_surr_kernel_unbiased 1 [3] [[1]] [[1], [2]] = Inr None"
    by (simp add: mmd_surr_kernel_unbiased_def bcast2_def bcast_def kernel_norm2_fr_def div_t_def
        unbiased_denom_def fill_diagonal_zero_def mean_t_def)
  ultimately show ?thesis by simp
qed

section \<open>The scores of the control variates\<close>

text \<open>
  Claim C7.  Line 172 passes the concatenated spike mask of the whole buffer together
  with the design matrix of the current forward pass.  With two buffered entries of two
  trials each the mask has four trials and the design matrix two, and the call raises;
  on the spike mask of the current forward pass alone the score is defined.
\<close>

theorem control_variate_scores_take_history_mask:
  "(case buffer_run 2 ([], []) [([[2, 2]], [[0, 1]]), ([[1, 1]], [[1, 0]])] of
      Inl e \<Rightarrow> Inl e
    | Inr h \<Rightarrow> control_variate_scores (\<lambda>x. exp x) [0] 1 (snd h) [[[1], [1]]])
     = Inl RuntimeError
   \<and> score (\<lambda>x. exp x) [0] 1 [[1, 0]] [[[1], [1]]]
     = Inr [[Some (1 / (exp 1 - 1))], [Some (- 1)]]"
  by (simp add: buffer_update_def control_variate_scores_def cat1_def score_def rate_def
      einsum_tka_a_def dot_def bcast2_def bcast_def einsum_tka_tk_def div_t_def times_t_def
      plus_t_def sum_t_def upt_rec numeral_2_eq_2)

end
